theory Spec2Isabelle
  imports Main
begin

chapter \<open>The model\<close>

section \<open>Failures and outcomes\<close>

text \<open>
  A \<open>std::exception_ptr\<close> refers to an opaque failure object. The only failure the
  library itself creates is \<open>broken_promise\<close>; everything else comes from the body of a
  coroutine and is identified by a number.

  A C++ call either returns, leaves by an exception, or ends the process through
  \<open>std::terminate\<close> (also the fate of an exception that escapes a \<open>noexcept\<close>
  function). Results of type \<open>option\<close> are used for operations that may have no
  defined result at all: \<open>None\<close> stands for undefined behaviour (resuming a
  coroutine that is already complete, calling through a null handle, a violated
  \<open>assert\<close>) and for a loop that never ends.
\<close>

datatype failure = broken_promise | user_failure nat

datatype 'a outcome = Normal 'a | Raised failure | Terminated

section \<open>The exception-capture mix-in (detail/exception\_promise.hpp)\<close>

text \<open>
  \<open>exception_promise<NoExcept, Base>\<close> is a base class of the promise types. A derived
  promise is a record extension, so the member functions are defined on the record
  scheme and apply to every promise that inherits from the mix-in.
  \<open>m_exception\<close> is a \<open>std::exception_ptr\<close>, \<open>None\<close> being the null pointer.
\<close>

record exception_promise =
  m_exception :: "failure option"

text \<open>
  The fallible specialisation \<open>exception_promise<false, Base>\<close>.
  \<open>unhandled_exception()\<close> stores \<open>std::current_exception()\<close>.
\<close>

definition unhandled_exception ::
  "failure \<Rightarrow> 'z exception_promise_scheme \<Rightarrow> 'z exception_promise_scheme" where
  "unhandled_exception e p = p\<lparr>m_exception := Some e\<rparr>"

text \<open>
  \<open>rethrow_if_exception()\<close> is
  \<^verbatim>\<open>if (m_exception != nullptr) std::rethrow_exception(std::move(m_exception));\<close>
  \<open>std::rethrow_exception\<close> takes its argument by value, so the argument is
  initialised from the xvalue \<open>std::move(m_exception)\<close>. What the member holds
  afterwards is not decided by this code but by \<open>std::exception_ptr\<close>, a class of
  the standard library: where it has no move constructor the argument is a copy and
  the member keeps the failure, where it has one the member is left in its
  moved-from state. That state is the parameter \<open>moved\<close> of the model, a function
  from what the member held to what it holds after the call. \<open>move_copies\<close> is an
  \<open>exception_ptr\<close> whose source is left as it was, \<open>move_empties\<close> one whose
  source is left null. Every function that reaches \<open>rethrow_if_exception()\<close>
  carries the parameter.

  The result of \<open>rethrow_if_exception\<close> is the way the call leaves, together with
  the promise afterwards.
\<close>

type_synonym exception_ptr_move = "failure option \<Rightarrow> failure option"

definition move_copies :: exception_ptr_move where
  "move_copies x = x"

definition move_empties :: exception_ptr_move where
  "move_empties x = None"

definition rethrow_if_exception ::
  "exception_ptr_move \<Rightarrow> 'z exception_promise_scheme
     \<Rightarrow> unit outcome \<times> 'z exception_promise_scheme" where
  "rethrow_if_exception moved p =
     (case m_exception p of
        None \<Rightarrow> (Normal (), p)
      | Some e \<Rightarrow> (Raised e, p\<lparr>m_exception := moved (Some e)\<rparr>))"

text \<open>
  The no-fail specialisation \<open>exception_promise<true, Base>\<close> has no member at all:
  \<open>unhandled_exception()\<close> calls \<open>std::terminate()\<close> and \<open>rethrow_if_exception()\<close>
  has an empty body.
\<close>

definition unhandled_exception_noexcept :: "failure \<Rightarrow> 'p \<Rightarrow> 'p outcome" where
  "unhandled_exception_noexcept e p = Terminated"

definition rethrow_if_exception_noexcept :: "'p \<Rightarrow> unit outcome \<times> 'p" where
  "rethrow_if_exception_noexcept p = (Normal (), p)"

section \<open>Coroutines\<close>

text \<open>
  A coroutine is a frame (where the body is suspended) together with its promise
  object. A body starts at its initial suspend point, is suspended at one of its own
  suspend points while it runs, and ends at its final suspend point, where
  \<open>coroutine_handle::done()\<close> holds. What the initial suspend point does is decided
  by the awaitable that \<open>initial_suspend()\<close> returns.
\<close>

datatype suspend = suspend_always | suspend_never

datatype 'b frame = Initial 'b | Suspended 'b | Final

record ('f, 'p) coroutine =
  frame :: 'f
  promise :: 'p

type_synonym coroutine_handle = nat

section \<open>Task: the promise (task.hpp)\<close>

text \<open>
  \<open>task_promise_base\<close> on the path without symmetric transfer: the continuation and
  the atomic flag \<open>m_state\<close>, initially false.
\<close>

record task_promise_base =
  m_continuation :: "coroutine_handle option"
  m_state :: bool

definition task_initial_suspend :: suspend where
  "task_initial_suspend = suspend_always"

text \<open>
  The two atomic actions on the promise: the plain store \<open>m_continuation = continuation\<close>
  and \<open>m_state.exchange(true, std::memory_order_acq_rel)\<close>, which returns the old flag.
\<close>

definition store_continuation ::
  "coroutine_handle \<Rightarrow> 'z task_promise_base_scheme \<Rightarrow> 'z task_promise_base_scheme" where
  "store_continuation h p = p\<lparr>m_continuation := Some h\<rparr>"

definition exchange_true ::
  "'z task_promise_base_scheme \<Rightarrow> bool \<times> 'z task_promise_base_scheme" where
  "exchange_true p = (m_state p, p\<lparr>m_state := True\<rparr>)"

text \<open>
  \<open>try_set_continuation\<close> stores the continuation and returns \<open>!m_state.exchange(true)\<close>.
\<close>

definition try_set_continuation ::
  "coroutine_handle \<Rightarrow> 'z task_promise_base_scheme \<Rightarrow> bool \<times> 'z task_promise_base_scheme" where
  "try_set_continuation h p =
     (let (old, p') = exchange_true (store_continuation h p) in (\<not> old, p'))"

text \<open>
  \<open>m_continuation.resume()\<close>: the handle resumed is appended to the list of resumed
  handles; resuming the null handle is undefined.
\<close>

definition resume_continuation ::
  "'z task_promise_base_scheme \<Rightarrow> coroutine_handle list \<Rightarrow> coroutine_handle list option" where
  "resume_continuation p rs =
     (case m_continuation p of None \<Rightarrow> None | Some c \<Rightarrow> Some (rs @ [c]))"

text \<open>
  \<open>final_awaitable::await_suspend\<close>:
  \<^verbatim>\<open>if (promise.m_state.exchange(true, acq_rel)) promise.m_continuation.resume();\<close>
\<close>

definition final_awaitable_await_suspend ::
  "'z task_promise_base_scheme \<Rightarrow> coroutine_handle list
     \<Rightarrow> ('z task_promise_base_scheme \<times> coroutine_handle list) option" where
  "final_awaitable_await_suspend p rs =
     (let (old, p') = exchange_true p
      in if old then map_option (Pair p') (resume_continuation p' rs) else Some (p', rs))"

text \<open>
  \<open>task_promise<T, false>\<close>: the tag \<open>m_resultType\<close> and the union of \<open>m_value\<close> and
  \<open>m_exception\<close> are one tagged value.
\<close>

datatype 'a result_slot = empty_slot | has_value 'a | has_exception failure

record 'a task_promise = task_promise_base +
  m_result :: "'a result_slot"

text \<open>
  \<open>task_promise<T, false>::result() &\<close> re-raises a stored failure with
  \<open>std::rethrow_exception(m_exception)\<close> (a copy of the pointer), otherwise asserts
  that a value is stored and returns it. It does not write to the promise.
\<close>

definition result_T :: "'a task_promise \<Rightarrow> ('a outcome \<times> 'a task_promise) option" where
  "result_T p =
     (case m_result p of
        has_exception e \<Rightarrow> Some (Raised e, p)
      | has_value v \<Rightarrow> Some (Normal v, p)
      | empty_slot \<Rightarrow> None)"

text \<open>
  \<open>task_promise<T, true>\<close>: \<open>m_hasValue\<close> and the union that holds \<open>m_value\<close>.
  \<open>return_value\<close> constructs the value and sets the flag; \<open>result() &\<close> is
  \<open>assert(m_hasValue); return m_value;\<close>.
\<close>

record 'a task_promise_noexcept = task_promise_base +
  m_hasValue :: bool
  m_value_union :: "'a option"

definition result_T_noexcept ::
  "'a task_promise_noexcept \<Rightarrow> ('a outcome \<times> 'a task_promise_noexcept) option" where
  "result_T_noexcept p =
     (if m_hasValue p
      then (case m_value_union p of None \<Rightarrow> None | Some v \<Rightarrow> Some (Normal v, p))
      else None)"

text \<open>
  \<open>task_promise<void, NoExcept>\<close> derives from
  \<open>exception_promise<NoExcept, task_promise_base>\<close>. A record has one parent, so the
  mix-in layer is held in the field \<open>mixin\<close>. \<open>result()\<close> is
  \<open>this->rethrow_if_exception()\<close>.

  The partial specialisations \<open>task_promise<T, false>\<close> and \<open>task_promise<T, true>\<close>
  match \<open>T = void\<close> as well, and neither they nor \<open>task_promise<void, NoExcept>\<close>
  is more specialised than the other, so \<open>task_promise<void, false>\<close> and
  \<open>task_promise<void, true>\<close> name no class: no coroutine has this promise. Only the
  member function is modelled, as it is written; no task is built from it.
\<close>

record task_promise_void = task_promise_base +
  mixin :: exception_promise

definition result_void ::
  "exception_ptr_move \<Rightarrow> bool \<Rightarrow> task_promise_void
     \<Rightarrow> (unit outcome \<times> task_promise_void) option" where
  "result_void moved NoExcept p =
     (let (r, m) = (if NoExcept then rethrow_if_exception_noexcept (mixin p)
                    else rethrow_if_exception moved (mixin p))
      in Some (r, p\<lparr>mixin := m\<rparr>))"

text \<open>
  What the task machinery needs from a promise type: its constructor, \<open>return_value\<close>
  (or \<open>return_void\<close>), \<open>unhandled_exception\<close> and \<open>result\<close>.
\<close>

record ('a, 'p) promise_ops =
  construct :: 'p
  on_return :: "'a \<Rightarrow> 'p \<Rightarrow> 'p"
  on_unhandled_exception :: "failure \<Rightarrow> 'p \<Rightarrow> 'p outcome"
  result :: "'p \<Rightarrow> ('a outcome \<times> 'p) option"

definition task_promise_T :: "('a, 'a task_promise) promise_ops" where
  "task_promise_T =
     \<lparr>construct = \<lparr>m_continuation = None, m_state = False, m_result = empty_slot\<rparr>,
      on_return = (\<lambda>v p. p\<lparr>m_result := has_value v\<rparr>),
      on_unhandled_exception = (\<lambda>e p. Normal (p\<lparr>m_result := has_exception e\<rparr>)),
      result = result_T\<rparr>"

text \<open>
  \<open>task_promise<T, true>\<close>: \<open>unhandled_exception()\<close> is \<open>std::terminate()\<close>.
\<close>

definition task_promise_T_noexcept :: "('a, 'a task_promise_noexcept) promise_ops" where
  "task_promise_T_noexcept =
     \<lparr>construct = \<lparr>m_continuation = None, m_state = False,
                   m_hasValue = False, m_value_union = None\<rparr>,
      on_return = (\<lambda>v p. p\<lparr>m_hasValue := True, m_value_union := Some v\<rparr>),
      on_unhandled_exception = (\<lambda>e p. Terminated),
      result = result_T_noexcept\<rparr>"

section \<open>Task: the race between completion and registration\<close>









section \<open>Task: coroutines, the task object and its awaitable\<close>

text \<open>
  The body of a task coroutine, as far as its resumer can see it: it performs side
  effects (each identified by a number and appended to the log \<open>effects\<close>), it may
  suspend on something outside this library that resumes it later, and it ends with
  \<open>co_return v\<close> or with a failure that escapes.
\<close>

datatype 'a task_body =
    CoReturn 'a
  | Throw failure
  | Effect nat "'a task_body"
  | AwaitExternal "'a task_body"

text \<open>
  The side effects a body performs when it is resumed, up to its next suspension.
\<close>

fun immediate_effects :: "'a task_body \<Rightarrow> nat list" where
  "immediate_effects (Effect n k) = n # immediate_effects k"
| "immediate_effects (AwaitExternal k) = []"
| "immediate_effects (CoReturn v) = []"
| "immediate_effects (Throw e) = []"

text \<open>
  All task coroutines live in a store indexed by address; a
  \<open>coroutine_handle<promise_type>\<close> is an address or null. \<open>resumed\<close> lists the
  awaiting coroutines that \<open>final_awaitable\<close> resumed.
\<close>

record ('a, 'p) world =
  coroutines :: "('a task_body frame, 'p) coroutine list"
  effects :: "nat list"
  resumed :: "coroutine_handle list"

definition is_done :: "('a, 'p) world \<Rightarrow> nat \<Rightarrow> bool" where
  "is_done w a = (a < length (coroutines w) \<and> frame (coroutines w ! a) = Final)"

text \<open>
  \<open>co_await final_suspend()\<close>: the coroutine is at its final suspend point, then
  \<open>final_awaitable::await_suspend\<close> runs on the promise \<open>p\<close>.
\<close>

definition final_suspend ::
  "nat \<Rightarrow> 'z task_promise_base_scheme \<Rightarrow> ('a, 'z task_promise_base_scheme) world
     \<Rightarrow> (unit outcome \<times> ('a, 'z task_promise_base_scheme) world) option" where
  "final_suspend a p w =
     (case final_awaitable_await_suspend p (resumed w) of
        None \<Rightarrow> None
      | Some (p', rs) \<Rightarrow>
          Some (Normal (),
                w\<lparr>coroutines := (coroutines w)[a := \<lparr>frame = Final, promise = p'\<rparr>],
                  resumed := rs\<rparr>))"

fun run_body ::
  "('a, 'z task_promise_base_scheme) promise_ops \<Rightarrow> nat \<Rightarrow> 'a task_body
     \<Rightarrow> ('a, 'z task_promise_base_scheme) world
     \<Rightarrow> (unit outcome \<times> ('a, 'z task_promise_base_scheme) world) option" where
  "run_body ops a (Effect n k) w = run_body ops a k (w\<lparr>effects := effects w @ [n]\<rparr>)"
| "run_body ops a (AwaitExternal k) w =
     Some (Normal (),
           w\<lparr>coroutines := (coroutines w)[a := (coroutines w ! a)\<lparr>frame := Suspended k\<rparr>]\<rparr>)"
| "run_body ops a (CoReturn v) w =
     final_suspend a (on_return ops v (promise (coroutines w ! a))) w"
| "run_body ops a (Throw e) w =
     (case on_unhandled_exception ops e (promise (coroutines w ! a)) of
        Normal p \<Rightarrow> final_suspend a p w
      | Raised x \<Rightarrow> Some (Terminated, w)
      | Terminated \<Rightarrow> Some (Terminated, w))"

text \<open>\<open>coroutine_handle::resume()\<close> on the coroutine at address \<open>a\<close>.\<close>

definition resume ::
  "('a, 'z task_promise_base_scheme) promise_ops \<Rightarrow> ('a, 'z task_promise_base_scheme) world
     \<Rightarrow> nat \<Rightarrow> (unit outcome \<times> ('a, 'z task_promise_base_scheme) world) option" where
  "resume ops w a =
     (if a < length (coroutines w)
      then (case frame (coroutines w ! a) of
              Initial b \<Rightarrow> run_body ops a b w
            | Suspended b \<Rightarrow> run_body ops a b w
            | Final \<Rightarrow> None)
      else None)"

text \<open>
  The task object holds \<open>m_coroutine\<close>. The default constructor stores the null
  handle; the move constructor takes the handle and nulls the source: the result is
  the new task and the source afterwards. Both are \<open>noexcept\<close> and touch no
  coroutine.
\<close>

type_synonym task = "nat option"

definition task_default :: task where
  "task_default = None"

definition task_move :: "task \<Rightarrow> task \<times> task" where
  "task_move t = (t, None)"

definition is_ready :: "('a, 'p) world \<Rightarrow> task \<Rightarrow> bool" where
  "is_ready w t = (case t of None \<Rightarrow> True | Some a \<Rightarrow> is_done w a)"

text \<open>
  Calling a coroutine function that returns a task: the frame is allocated with the
  body at its start, the promise is constructed, \<open>get_return_object()\<close> makes the
  task from the handle, and \<open>co_await initial_suspend()\<close> decides whether the body
  runs now.
\<close>

definition call_task ::
  "('a, 'z task_promise_base_scheme) promise_ops \<Rightarrow> 'a task_body
     \<Rightarrow> ('a, 'z task_promise_base_scheme) world
     \<Rightarrow> (task outcome \<times> ('a, 'z task_promise_base_scheme) world) option" where
  "call_task ops b w =
     (let a = length (coroutines w);
          w' = w\<lparr>coroutines := coroutines w @ [\<lparr>frame = Initial b, promise = construct ops\<rparr>]\<rparr>
      in case task_initial_suspend of
           suspend_always \<Rightarrow> Some (Normal (Some a), w')
         | suspend_never \<Rightarrow>
             (case resume ops w' a of
                None \<Rightarrow> None
              | Some (Normal u, w'') \<Rightarrow> Some (Normal (Some a), w'')
              | Some (Raised x, w'') \<Rightarrow> Some (Raised x, w'')
              | Some (Terminated, w'') \<Rightarrow> Some (Terminated, w'')))"

text \<open>\<open>awaitable_base\<close>, which holds a copy of the task's handle.\<close>

definition await_ready :: "('a, 'p) world \<Rightarrow> task \<Rightarrow> bool" where
  "await_ready w t = (case t of None \<Rightarrow> True | Some a \<Rightarrow> is_done w a)"

text \<open>
  \<open>await_suspend\<close> without symmetric transfer:
  \<^verbatim>\<open>m_coroutine.resume(); return m_coroutine.promise().try_set_continuation(awaitingCoroutine);\<close>
\<close>

definition await_suspend ::
  "('a, 'z task_promise_base_scheme) promise_ops \<Rightarrow> coroutine_handle
     \<Rightarrow> ('a, 'z task_promise_base_scheme) world \<Rightarrow> task
     \<Rightarrow> (bool outcome \<times> ('a, 'z task_promise_base_scheme) world) option" where
  "await_suspend ops h w t =
     (case t of
        None \<Rightarrow> None
      | Some a \<Rightarrow>
          (case resume ops w a of
             None \<Rightarrow> None
           | Some (Normal u, w1) \<Rightarrow>
               (let (b, p) = try_set_continuation h (promise (coroutines w1 ! a))
                in Some (Normal b,
                         w1\<lparr>coroutines := (coroutines w1)[a := (coroutines w1 ! a)\<lparr>promise := p\<rparr>]\<rparr>))
           | Some (Raised x, w1) \<Rightarrow> Some (Terminated, w1)
           | Some (Terminated, w1) \<Rightarrow> Some (Terminated, w1)))"

text \<open>
  \<open>await_resume\<close> of the awaitable of \<open>operator co_await\<close>, declared
  \<open>noexcept(NoExcept)\<close>: on a null handle it executes \<open>throw broken_promise{}\<close>,
  otherwise it returns \<open>promise().result()\<close>. An exception that leaves a
  \<open>noexcept(true)\<close> function ends the process.
\<close>

definition noexcept_call :: "bool \<Rightarrow> 'r outcome \<Rightarrow> 'r outcome" where
  "noexcept_call NoExcept r =
     (if NoExcept then (case r of Raised e \<Rightarrow> Terminated | _ \<Rightarrow> r) else r)"

definition await_resume ::
  "bool \<Rightarrow> ('a, 'p) promise_ops \<Rightarrow> ('a, 'p) world \<Rightarrow> task
     \<Rightarrow> ('a outcome \<times> ('a, 'p) world) option" where
  "await_resume NoExcept ops w t =
     (case t of
        None \<Rightarrow> Some (noexcept_call NoExcept (Raised broken_promise), w)
      | Some a \<Rightarrow>
          (if a < length (coroutines w)
           then (case result ops (promise (coroutines w ! a)) of
                   None \<Rightarrow> None
                 | Some (r, p) \<Rightarrow>
                     Some (noexcept_call NoExcept r,
                           w\<lparr>coroutines := (coroutines w)[a := (coroutines w ! a)\<lparr>promise := p\<rparr>]\<rparr>))
           else None))"

text \<open>
  The expression \<open>co_await t\<close> in the coroutine \<open>h\<close>, as the compiler expands it:
  \<open>await_ready\<close>; if not ready the coroutine is suspended and \<open>await_suspend\<close>
  runs, and on \<open>true\<close> control goes back to the caller of \<open>h\<close> (\<open>StaysSuspended\<close>);
  otherwise \<open>await_resume\<close> gives the value of the expression.
\<close>

datatype 'r awaited = StaysSuspended | Resumes "'r outcome"

definition co_await ::
  "bool \<Rightarrow> ('a, 'z task_promise_base_scheme) promise_ops \<Rightarrow> coroutine_handle
     \<Rightarrow> ('a, 'z task_promise_base_scheme) world \<Rightarrow> task
     \<Rightarrow> ('a awaited \<times> ('a, 'z task_promise_base_scheme) world) option" where
  "co_await NoExcept ops h w t =
     (if await_ready w t
      then map_option (\<lambda>(r, w'). (Resumes r, w')) (await_resume NoExcept ops w t)
      else (case await_suspend ops h w t of
              None \<Rightarrow> None
            | Some (Normal b, w1) \<Rightarrow>
                (if b then Some (StaysSuspended, w1)
                 else map_option (\<lambda>(r, w'). (Resumes r, w')) (await_resume NoExcept ops w1 t))
            | Some (Raised x, w1) \<Rightarrow> Some (Resumes Terminated, w1)
            | Some (Terminated, w1) \<Rightarrow> Some (Resumes Terminated, w1)))"

section \<open>Generator (generator.hpp)\<close>

text \<open>
  The body of a generator coroutine is a transition function on the state of its
  locals: resumed in state \<open>s\<close> it runs to its next \<open>co_yield\<close> (\<open>Yields v s'\<close>), to
  its end (\<open>Returns\<close>), or a failure escapes it (\<open>Throws e\<close>); \<open>None\<close> is a body
  that does something undefined on the way. \<open>co_await\<close> is deleted in a generator
  body, so these are all its suspend points. Generators are modelled in their
  fallible instantiation (\<open>NoExcept = false\<close>, the default), where
  \<open>generator_promise\<close> derives from \<open>exception_promise<false>\<close>.
\<close>

datatype ('s, 'a) suspension = Yields 'a 's | Returns | Throws failure

type_synonym ('s, 'a) body = "'s \<Rightarrow> ('s, 'a) suspension option"

text \<open>\<open>m_value\<close> points to the value of the pending \<open>co_yield\<close>; it starts out unset.\<close>

record 'a generator_promise = exception_promise +
  m_value :: "'a option"

definition generator_initial_suspend :: suspend where
  "generator_initial_suspend = suspend_always"

text \<open>\<open>yield_value(value)\<close> stores the address and returns \<open>suspend_always\<close>.\<close>

definition yield_value ::
  "'a \<Rightarrow> ('a, 'z) generator_promise_scheme \<Rightarrow> ('a, 'z) generator_promise_scheme" where
  "yield_value v p = p\<lparr>m_value := Some v\<rparr>"

text \<open>
  A generator object and its iterator both hold the handle \<open>m_coroutine\<close> of the
  same coroutine, which nothing else refers to: the handle is modelled together
  with the coroutine it refers to, \<open>None\<close> being the null handle, and the operations
  of the iterator return the coroutine as they leave it.
\<close>

type_synonym ('s, 'a) generator = "('s frame, 'a generator_promise) coroutine option"

definition generator_run ::
  "('s, 'a) body \<Rightarrow> 's \<Rightarrow> ('s frame, 'a generator_promise) coroutine
     \<Rightarrow> ('s frame, 'a generator_promise) coroutine option" where
  "generator_run body s c =
     (case body s of
        None \<Rightarrow> None
      | Some (Yields v s') \<Rightarrow> Some (c\<lparr>frame := Suspended s', promise := yield_value v (promise c)\<rparr>)
      | Some Returns \<Rightarrow> Some (c\<lparr>frame := Final\<rparr>)
      | Some (Throws e) \<Rightarrow> Some (c\<lparr>frame := Final, promise := unhandled_exception e (promise c)\<rparr>))"

text \<open>\<open>m_coroutine.resume()\<close>; resuming a coroutine that is done is undefined.\<close>

definition generator_resume ::
  "('s, 'a) body \<Rightarrow> ('s frame, 'a generator_promise) coroutine
     \<Rightarrow> ('s frame, 'a generator_promise) coroutine option" where
  "generator_resume body c =
     (case frame c of
        Initial s \<Rightarrow> generator_run body s c
      | Suspended s \<Rightarrow> generator_run body s c
      | Final \<Rightarrow> None)"

text \<open>
  Calling a coroutine function that returns a generator: frame and promise are
  created, \<open>get_return_object()\<close> wraps the handle, and
  \<open>co_await initial_suspend()\<close> decides whether the body runs now.
\<close>

definition call_generator :: "('s, 'a) body \<Rightarrow> 's \<Rightarrow> ('s, 'a) generator option" where
  "call_generator body s =
     (let c = \<lparr>frame = Initial s, promise = \<lparr>m_exception = None, m_value = None\<rparr>\<rparr>
      in case generator_initial_suspend of
           suspend_always \<Rightarrow> Some (Some c)
         | suspend_never \<Rightarrow> map_option Some (generator_resume body c))"

text \<open>The default constructor and the moved-from state: the null handle.\<close>

definition generator_default :: "('s, 'a) generator" where
  "generator_default = None"

definition generator_move :: "('s, 'a) generator \<Rightarrow> ('s, 'a) generator \<times> ('s, 'a) generator" where
  "generator_move g = (g, None)"

text \<open>
  \<open>generator::begin()\<close>: the result is the way the call leaves and the iterator
  (the handle) it returns.
\<close>

definition after_resume ::
  "exception_ptr_move \<Rightarrow> ('s frame, 'a generator_promise) coroutine
     \<Rightarrow> unit outcome \<times> ('s, 'a) generator" where
  "after_resume moved c =
     (if frame c = Final
      then (let (r, p) = rethrow_if_exception moved (promise c) in (r, Some (c\<lparr>promise := p\<rparr>)))
      else (Normal (), Some c))"

definition generator_begin ::
  "exception_ptr_move \<Rightarrow> ('s, 'a) body \<Rightarrow> ('s, 'a) generator
     \<Rightarrow> (unit outcome \<times> ('s, 'a) generator) option" where
  "generator_begin moved body g =
     (case g of
        None \<Rightarrow> Some (Normal (), None)
      | Some c \<Rightarrow> map_option (after_resume moved) (generator_resume body c))"

text \<open>\<open>operator==(it, generator_sentinel)\<close>: \<open>!it.m_coroutine || it.m_coroutine.done()\<close>.\<close>

definition iterator_eq_sentinel :: "('s, 'a) generator \<Rightarrow> bool" where
  "iterator_eq_sentinel it = (case it of None \<Rightarrow> True | Some c \<Rightarrow> frame c = Final)"

text \<open>\<open>generator_iterator::operator++\<close>; on the null handle \<open>resume()\<close> is undefined.\<close>

definition iterator_incr ::
  "exception_ptr_move \<Rightarrow> ('s, 'a) body \<Rightarrow> ('s, 'a) generator
     \<Rightarrow> (unit outcome \<times> ('s, 'a) generator) option" where
  "iterator_incr moved body it =
     (case it of
        None \<Rightarrow> None
      | Some c \<Rightarrow> map_option (after_resume moved) (generator_resume body c))"

text \<open>
  \<open>operator*\<close> reads through \<open>m_value\<close>. The object it points to lives in the body
  up to the next resumption: there is nothing to read before the first \<open>co_yield\<close>,
  after the body has ended, or through the null handle.
\<close>

definition iterator_deref :: "('s, 'a) generator \<Rightarrow> 'a option" where
  "iterator_deref it =
     (case it of
        None \<Rightarrow> None
      | Some c \<Rightarrow> if frame c = Final then None else m_value (promise c))"

text \<open>
  A body that is a fixed script: yield these values, then return or fail.
\<close>

datatype 'a script = Return | Fail failure | Yield 'a "'a script"

fun script_body :: "('a script, 'a) body" where
  "script_body Return = Some Returns"
| "script_body (Fail e) = Some (Throws e)"
| "script_body (Yield v k) = Some (Yields v k)"

fun script_values :: "'a script \<Rightarrow> 'a list" where
  "script_values Return = []"
| "script_values (Fail e) = []"
| "script_values (Yield v k) = v # script_values k"

fun script_failure :: "'a script \<Rightarrow> failure option" where
  "script_failure Return = None"
| "script_failure (Fail e) = Some e"
| "script_failure (Yield v k) = script_failure k"

section \<open>The range-based for loop\<close>

text \<open>
  What \<open>for (auto&& value : source)\<close> uses of its range: \<open>begin()\<close>, the comparison
  with \<open>end()\<close>, \<open>operator*\<close> and \<open>operator++\<close>. The state \<open>'r\<close> is the range
  together with the iterator of the loop. The loop
  \<^verbatim>\<open>for (auto it = source.begin(); it != source.end(); ++it) { use(*it); }\<close>
  is run by a consumer that records the values it sees; the result is that list and
  the failure that ended the loop, if one did.
\<close>

record ('r, 'a) range =
  range_begin :: "'r \<Rightarrow> (unit outcome \<times> 'r) option"
  range_at_end :: "'r \<Rightarrow> bool"
  range_deref :: "'r \<Rightarrow> 'a option"
  range_incr :: "'r \<Rightarrow> (unit outcome \<times> 'r) option"

partial_function (option) range_loop ::
  "('r, 'a) range \<Rightarrow> 'r \<Rightarrow> ('a list \<times> failure option) option" where
  "range_loop R it =
     (if range_at_end R it then Some ([], None)
      else (case range_deref R it of
              None \<Rightarrow> None
            | Some v \<Rightarrow>
                (case range_incr R it of
                   None \<Rightarrow> None
                 | Some (r, it') \<Rightarrow>
                     (case r of
                        Normal u \<Rightarrow> Option.bind (range_loop R it') (\<lambda>(vs, e). Some (v # vs, e))
                      | Raised e \<Rightarrow> Some ([v], Some e)
                      | Terminated \<Rightarrow> None))))"

declare range_loop.simps [code]

definition range_for :: "('r, 'a) range \<Rightarrow> 'r \<Rightarrow> ('a list \<times> failure option) option" where
  "range_for R src =
     (case range_begin R src of
        None \<Rightarrow> None
      | Some (r, it) \<Rightarrow>
          (case r of
             Normal u \<Rightarrow> range_loop R it
           | Raised e \<Rightarrow> Some ([], Some e)
           | Terminated \<Rightarrow> None))"

definition generator_range ::
  "exception_ptr_move \<Rightarrow> ('s, 'a) body \<Rightarrow> (('s, 'a) generator, 'a) range" where
  "generator_range moved body =
     \<lparr>range_begin = generator_begin moved body, range_at_end = iterator_eq_sentinel,
      range_deref = iterator_deref, range_incr = iterator_incr moved body\<rparr>"

section \<open>Recursive generator (recursive\_generator.hpp)\<close>

text \<open>
  The body of a recursive generator is a finite script: it yields a value, yields a
  nested generator, returns, or lets a failure escape. A nested generator is either
  made on the spot by calling a coroutine function (\<open>YieldNested c k\<close>, the callee's
  body being \<open>c\<close>) or is an object that holds no coroutine (\<open>YieldEmpty k\<close>, a
  default-constructed or moved-from generator). Bodies have no handlers around their
  \<open>co_yield\<close> expressions. As for the plain generator, the fallible instantiation
  is modelled.
\<close>

datatype 'a rec_body =
    RReturn
  | RThrow failure
  | RYield 'a "'a rec_body"
  | RYieldNested "'a rec_body" "'a rec_body"
  | RYieldEmpty "'a rec_body"

text \<open>
  Where a body is suspended: at its start, at the \<open>co_yield\<close> of a value, or in the
  awaitable of the \<open>co_yield\<close> of a nested generator, which keeps \<open>m_childPromise\<close>.
\<close>

datatype 'a rec_frame =
    at_initial "'a rec_body"
  | at_yield "'a rec_body"
  | at_yield_nested nat "'a rec_body"
  | at_final

text \<open>
  \<open>recursive_generator::promise_type\<close> has the members of \<open>generator_promise\<close> and
  the two links. Promises refer to each other, so all coroutines live in a heap
  indexed by address and a \<open>promise_type*\<close> is an address.
\<close>

record 'a promise_type = "'a generator_promise" +
  m_root :: nat
  m_parentOrLeaf :: nat

type_synonym 'a heap = "('a rec_frame, 'a promise_type) coroutine list"

definition recursive_initial_suspend :: suspend where
  "recursive_initial_suspend = suspend_always"

text \<open>The constructor: \<open>m_value(nullptr), m_root(this), m_parentOrLeaf(this)\<close>.\<close>

definition new_promise :: "nat \<Rightarrow> 'a promise_type" where
  "new_promise this = \<lparr>m_exception = None, m_value = None, m_root = this, m_parentOrLeaf = this\<rparr>"

definition set_frame :: "nat \<Rightarrow> 'a rec_frame \<Rightarrow> 'a heap \<Rightarrow> 'a heap" where
  "set_frame a f h = h[a := (h ! a)\<lparr>frame := f\<rparr>]"

definition update_promise ::
  "nat \<Rightarrow> ('a promise_type \<Rightarrow> 'a promise_type) \<Rightarrow> 'a heap \<Rightarrow> 'a heap" where
  "update_promise a f h = h[a := (h ! a)\<lparr>promise := f (promise (h ! a))\<rparr>]"

text \<open>\<open>is_complete()\<close>: \<open>coroutine_handle::from_promise(*this).done()\<close>.\<close>

definition is_complete :: "'a heap \<Rightarrow> nat \<Rightarrow> bool" where
  "is_complete h a = (frame (h ! a) = at_final)"

text \<open>
  \<open>yield_value(recursive_generator&)\<close> with a generator that holds the promise
  \<open>child\<close>, before it resumes the child:
  \<^verbatim>\<open>m_root->m_parentOrLeaf = generator.m_promise;
  generator.m_promise->m_root = m_root;
  generator.m_promise->m_parentOrLeaf = this;\<close>
\<close>

definition link_child :: "nat \<Rightarrow> nat \<Rightarrow> 'a heap \<Rightarrow> 'a heap" where
  "link_child this child h =
     (let root = m_root (promise (h ! this));
          h1 = update_promise root (\<lambda>p. p\<lparr>m_parentOrLeaf := child\<rparr>) h;
          h2 = update_promise child (\<lambda>p. p\<lparr>m_root := root\<rparr>) h1
      in update_promise child (\<lambda>p. p\<lparr>m_parentOrLeaf := this\<rparr>) h2)"

text \<open>
  and after the child has come back complete: \<open>m_root->m_parentOrLeaf = this;\<close>
\<close>

definition unlink_child :: "nat \<Rightarrow> 'a heap \<Rightarrow> 'a heap" where
  "unlink_child this h =
     update_promise (m_root (promise (h ! this))) (\<lambda>p. p\<lparr>m_parentOrLeaf := this\<rparr>) h"

text \<open>
  Running the body \<open>b\<close> of the coroutine at address \<open>a\<close> up to its next suspension.

  \<^item> Falling off the end: \<open>return_void()\<close>, then the final suspend point.
  \<^item> A failure escapes: \<open>unhandled_exception()\<close>, then the final suspend point.
  \<^item> \<open>co_yield v\<close>: \<open>yield_value(v)\<close> stores the address and suspends.
  \<^item> \<open>co_yield\<close> of a generator without coroutine: \<open>yield_value\<close> returns
    \<open>awaitable{nullptr}\<close>, whose \<open>await_ready()\<close> is true and whose \<open>await_resume()\<close>
    does nothing; the body goes on.
  \<^item> \<open>co_yield\<close> of a fresh nested generator: the call allocates the child at the
    next free address (its initial suspend is \<open>suspend_always\<close>); \<open>yield_value\<close>
    links it and resumes it, which runs the child's body inside this call. If the
    child is not complete, \<open>awaitable{child}\<close> suspends this coroutine. If it is,
    the leaf link is reset and \<open>awaitable{nullptr}\<close> lets the body go on.
\<close>

fun exec :: "'a heap \<Rightarrow> nat \<Rightarrow> 'a rec_body \<Rightarrow> 'a heap" where
  "exec h a RReturn = set_frame a at_final h"
| "exec h a (RThrow e) = set_frame a at_final (update_promise a (unhandled_exception e) h)"
| "exec h a (RYield v k) = set_frame a (at_yield k) (update_promise a (yield_value v) h)"
| "exec h a (RYieldEmpty k) = exec h a k"
| "exec h a (RYieldNested c k) =
     (let child = length h;
          h1 = h @ [\<lparr>frame = at_initial c, promise = new_promise child\<rparr>];
          h2 = link_child a child h1;
          h3 = exec h2 child c
      in if \<not> is_complete h3 child then set_frame a (at_yield_nested child k) h3
         else exec (unlink_child a h3) a k)"

text \<open>
  \<open>promise_type::resume()\<close>. A coroutine suspended in \<open>awaitable{child}\<close> first runs
  its \<open>await_resume()\<close>, that is \<open>child->rethrow_if_exception()\<close>: a failure of the
  child is thrown inside this body, where nothing catches it, so
  \<open>unhandled_exception()\<close> stores it in this promise and the body is over.
\<close>

definition rec_resume :: "exception_ptr_move \<Rightarrow> 'a heap \<Rightarrow> nat \<Rightarrow> 'a heap option" where
  "rec_resume moved h a =
     (if a < length h
      then (case frame (h ! a) of
              at_initial b \<Rightarrow> Some (exec h a b)
            | at_yield b \<Rightarrow> Some (exec h a b)
            | at_yield_nested child b \<Rightarrow>
                (if child < length h
                 then (case rethrow_if_exception moved (promise (h ! child)) of
                         (Raised e, p) \<Rightarrow>
                           Some (set_frame a at_final
                                  (update_promise a (unhandled_exception e)
                                    (update_promise child (\<lambda>_. p) h)))
                       | (_, p) \<Rightarrow> Some (exec h a b))
                 else None)
            | at_final \<Rightarrow> None)
      else None)"

text \<open>
  \<open>pull()\<close>, called on the root:
  \<^verbatim>\<open>assert(this == m_root);
  assert(!m_parentOrLeaf->is_complete());
  m_parentOrLeaf->resume();
  while (m_parentOrLeaf != this && m_parentOrLeaf->is_complete())
  {
      m_parentOrLeaf = m_parentOrLeaf->m_parentOrLeaf;
      m_parentOrLeaf->resume();
  }\<close>
\<close>

partial_function (option) pull_loop ::
  "exception_ptr_move \<Rightarrow> 'a heap \<Rightarrow> nat \<Rightarrow> 'a heap option" where
  "pull_loop moved h this =
     (let leaf = m_parentOrLeaf (promise (h ! this))
      in if leaf < length h
         then (if leaf \<noteq> this \<and> is_complete h leaf
               then (let parent = m_parentOrLeaf (promise (h ! leaf));
                         h1 = update_promise this (\<lambda>p. p\<lparr>m_parentOrLeaf := parent\<rparr>) h
                     in case rec_resume moved h1 parent of
                          None \<Rightarrow> None
                        | Some h2 \<Rightarrow> pull_loop moved h2 this)
               else Some h)
         else None)"

declare pull_loop.simps [code]

definition pull :: "exception_ptr_move \<Rightarrow> 'a heap \<Rightarrow> nat \<Rightarrow> 'a heap option" where
  "pull moved h this =
     (if this < length h \<and> m_root (promise (h ! this)) = this
         \<and> m_parentOrLeaf (promise (h ! this)) < length h
         \<and> \<not> is_complete h (m_parentOrLeaf (promise (h ! this)))
      then (case rec_resume moved h (m_parentOrLeaf (promise (h ! this))) of
              None \<Rightarrow> None
            | Some h1 \<Rightarrow> pull_loop moved h1 this)
      else None)"

text \<open>
  \<open>value()\<close>, called on the root: \<open>*(m_parentOrLeaf->m_value)\<close> under the asserts
  \<open>this == m_root\<close> and \<open>!is_complete()\<close>.
\<close>

definition rec_value :: "'a heap \<Rightarrow> nat \<Rightarrow> 'a option" where
  "rec_value h this =
     (if this < length h \<and> m_root (promise (h ! this)) = this \<and> \<not> is_complete h this
         \<and> m_parentOrLeaf (promise (h ! this)) < length h
      then m_value (promise (h ! (m_parentOrLeaf (promise (h ! this)))))
      else None)"

text \<open>
  The generator object and its iterator hold \<open>m_promise\<close>, an address or null.
  Calling a coroutine function that returns a recursive generator allocates the
  coroutine, suspended at its start.
\<close>

type_synonym recursive_generator = "nat option"

definition call_recursive_generator :: "'a rec_body \<Rightarrow> 'a heap \<Rightarrow> 'a heap \<times> recursive_generator" where
  "call_recursive_generator b h =
     (let a = length h;
          h' = h @ [\<lparr>frame = at_initial b, promise = new_promise a\<rparr>]
      in case recursive_initial_suspend of
           suspend_always \<Rightarrow> (h', Some a)
         | suspend_never \<Rightarrow> (exec h' a b, Some a))"

definition recursive_generator_default :: recursive_generator where
  "recursive_generator_default = None"

definition recursive_generator_move :: "recursive_generator \<Rightarrow> recursive_generator \<times> recursive_generator" where
  "recursive_generator_move g = (g, None)"

text \<open>
  After a \<open>pull()\<close> that left the root complete, \<open>begin()\<close> and \<open>operator++\<close> call
  \<open>rethrow_if_exception()\<close> on the root; the iterator is the null one then.
\<close>

definition after_pull ::
  "exception_ptr_move \<Rightarrow> 'a heap \<Rightarrow> nat \<Rightarrow> unit outcome \<times> 'a heap \<times> recursive_generator" where
  "after_pull moved h this =
     (if is_complete h this
      then (let (r, p) = rethrow_if_exception moved (promise (h ! this))
            in (r, update_promise this (\<lambda>_. p) h, None))
      else (Normal (), h, Some this))"

text \<open>\<open>recursive_generator::begin()\<close>.\<close>

definition recursive_begin ::
  "exception_ptr_move \<Rightarrow> 'a heap \<times> recursive_generator
     \<Rightarrow> (unit outcome \<times> 'a heap \<times> recursive_generator) option" where
  "recursive_begin moved s =
     (case snd s of
        None \<Rightarrow> Some (Normal (), fst s, None)
      | Some this \<Rightarrow> map_option (\<lambda>h. after_pull moved h this) (pull moved (fst s) this))"

text \<open>
  \<open>iterator::operator++\<close>, under its asserts \<open>m_promise != nullptr\<close> and
  \<open>!m_promise->is_complete()\<close>.
\<close>

definition recursive_incr ::
  "exception_ptr_move \<Rightarrow> 'a heap \<times> recursive_generator
     \<Rightarrow> (unit outcome \<times> 'a heap \<times> recursive_generator) option" where
  "recursive_incr moved s =
     (case snd s of
        None \<Rightarrow> None
      | Some this \<Rightarrow>
          if this < length (fst s) \<and> \<not> is_complete (fst s) this
          then map_option (\<lambda>h. after_pull moved h this) (pull moved (fst s) this)
          else None)"

text \<open>\<open>iterator::operator==\<close> against \<open>end()\<close>, which is \<open>iterator(nullptr)\<close>.\<close>

definition recursive_at_end :: "'a heap \<times> recursive_generator \<Rightarrow> bool" where
  "recursive_at_end s = (snd s = None)"

text \<open>\<open>iterator::operator*\<close>, under its assert \<open>m_promise != nullptr\<close>.\<close>

definition recursive_deref :: "'a heap \<times> recursive_generator \<Rightarrow> 'a option" where
  "recursive_deref s = (case snd s of None \<Rightarrow> None | Some this \<Rightarrow> rec_value (fst s) this)"

definition recursive_range ::
  "exception_ptr_move \<Rightarrow> ('a heap \<times> recursive_generator, 'a) range" where
  "recursive_range moved =
     \<lparr>range_begin = recursive_begin moved, range_at_end = recursive_at_end,
      range_deref = recursive_deref, range_incr = recursive_incr moved\<rparr>"

section \<open>What a recursive generator produces\<close>

text \<open>
  The sequence a recursive generator is specified to produce: the values of its body
  in order, with the values of a nested generator in place of its \<open>co_yield\<close>. It
  is stated for bodies that do not fail anywhere.
\<close>

fun flatten :: "'a rec_body \<Rightarrow> 'a list" where
  "flatten RReturn = []"
| "flatten (RThrow e) = []"
| "flatten (RYield v k) = v # flatten k"
| "flatten (RYieldNested c k) = flatten c @ flatten k"
| "flatten (RYieldEmpty k) = flatten k"

fun no_throw :: "'a rec_body \<Rightarrow> bool" where
  "no_throw RReturn = True"
| "no_throw (RThrow e) = False"
| "no_throw (RYield v k) = no_throw k"
| "no_throw (RYieldNested c k) = (no_throw c \<and> no_throw k)"
| "no_throw (RYieldEmpty k) = no_throw k"

text \<open>
  What the consumer of a body sees in general: its values up to the failure that
  ends it, if there is one. \<open>then_trace t u\<close> is \<open>t\<close> followed by \<open>u\<close>, unless \<open>t\<close>
  ends in a failure. A nested generator that ends before its first value leaves
  nothing behind, not even its failure.
\<close>

definition then_trace ::
  "'a list \<times> failure option \<Rightarrow> 'a list \<times> failure option \<Rightarrow> 'a list \<times> failure option" where
  "then_trace t u = (case snd t of Some e \<Rightarrow> t | None \<Rightarrow> (fst t @ fst u, snd u))"

fun rec_trace :: "'a rec_body \<Rightarrow> 'a list \<times> failure option" where
  "rec_trace RReturn = ([], None)"
| "rec_trace (RThrow e) = ([], Some e)"
| "rec_trace (RYield v k) = (v # fst (rec_trace k), snd (rec_trace k))"
| "rec_trace (RYieldNested c k) =
     (if fst (rec_trace c) = [] then rec_trace k else then_trace (rec_trace c) (rec_trace k))"
| "rec_trace (RYieldEmpty k) = rec_trace k"

text \<open>
  The bodies still to run in a chain of suspended coroutines, from the leaf up to
  the root, produce their traces one after the other.
\<close>

fun stack_trace :: "'a rec_body list \<Rightarrow> 'a list \<times> failure option" where
  "stack_trace [] = ([], None)"
| "stack_trace (k # ks) = then_trace (rec_trace k) (stack_trace ks)"

section \<open>The chain of a recursive generator\<close>

text \<open>
  Between two pulls the coroutines of one recursive generator form a chain: the
  leaf is suspended at the \<open>co_yield\<close> of a value, every other node is suspended
  in the \<open>co_yield\<close> of the node below it, parent links lead from the leaf up to
  the root, and a child's address is above its parent's. \<open>up h root x stop ks\<close>
  says that the parent links lead from \<open>x\<close> up to \<open>stop\<close> through nodes that wait
  for their child and have the bodies \<open>ks\<close> left to run; \<open>suspended_chain\<close> adds
  the leaf.
\<close>

fun up :: "'a heap \<Rightarrow> nat \<Rightarrow> nat \<Rightarrow> nat \<Rightarrow> 'a rec_body list \<Rightarrow> bool" where
  "up h root x stop [] = (x = stop)"
| "up h root x stop (k # ks) =
     (x \<noteq> stop \<and>
      m_parentOrLeaf (promise (h ! x)) < x \<and>
      root \<le> m_parentOrLeaf (promise (h ! x)) \<and>
      frame (h ! (m_parentOrLeaf (promise (h ! x)))) = at_yield_nested x k \<and>
      m_root (promise (h ! (m_parentOrLeaf (promise (h ! x))))) = root \<and>
      m_exception (promise (h ! (m_parentOrLeaf (promise (h ! x))))) = None \<and>
      up h root (m_parentOrLeaf (promise (h ! x))) stop ks)"

fun suspended_chain :: "'a heap \<Rightarrow> nat \<Rightarrow> nat \<Rightarrow> nat \<Rightarrow> 'a rec_body list \<Rightarrow> bool" where
  "suspended_chain h root l stop [] = False"
| "suspended_chain h root l stop (k # ks) =
     (l < length h \<and> root \<le> l \<and> frame (h ! l) = at_yield k \<and>
      m_root (promise (h ! l)) = root \<and> m_exception (promise (h ! l)) = None \<and>
      up h root l stop ks)"

text \<open>
  What running a body leaves alone: \<open>unchanged h h' y\<close> says that the coroutine at
  \<open>y\<close> is the same in both heaps but for its link \<open>m_parentOrLeaf\<close>, and
  \<open>same_link h h' y\<close> that its link is the same.
\<close>

definition unchanged :: "'a heap \<Rightarrow> 'a heap \<Rightarrow> nat \<Rightarrow> bool" where
  "unchanged h h' y =
     (frame (h' ! y) = frame (h ! y) \<and>
      m_root (promise (h' ! y)) = m_root (promise (h ! y)) \<and>
      m_exception (promise (h' ! y)) = m_exception (promise (h ! y)) \<and>
      m_value (promise (h' ! y)) = m_value (promise (h ! y)))"

definition same_link :: "'a heap \<Rightarrow> 'a heap \<Rightarrow> nat \<Rightarrow> bool" where
  "same_link h h' y = (m_parentOrLeaf (promise (h' ! y)) = m_parentOrLeaf (promise (h ! y)))"

text \<open>
  What running the body \<open>b\<close> of the leaf \<open>a\<close> does to the heap: it may allocate,
  it leaves every other old coroutine alone but for the leaf link of the root, and
  either \<open>a\<close> is complete with the failure of \<open>b\<close> (if \<open>b\<close> ends before its first
  value) or a chain of suspended coroutines leads from a new leaf, which holds the
  first value of \<open>b\<close>, up to \<open>a\<close>, with the rest of \<open>b\<close>'s trace left to run.
\<close>

definition exec_post :: "'a heap \<Rightarrow> nat \<Rightarrow> nat \<Rightarrow> 'a rec_body \<Rightarrow> 'a heap \<Rightarrow> bool" where
  "exec_post h a root b h' =
     (length h \<le> length h' \<and>
      (\<forall>y. y < length h \<and> y \<noteq> a \<longrightarrow> unchanged h h' y) \<and>
      (\<forall>y. y < length h \<and> y \<noteq> root \<longrightarrow> same_link h h' y) \<and>
      m_root (promise (h' ! a)) = root \<and>
      (if fst (rec_trace b) = []
       then frame (h' ! a) = at_final \<and> m_exception (promise (h' ! a)) = snd (rec_trace b) \<and>
            m_parentOrLeaf (promise (h' ! root)) = a
       else (\<exists>l ks. suspended_chain h' root l a ks \<and>
                    m_value (promise (h' ! l)) = Some (hd (fst (rec_trace b))) \<and>
                    m_parentOrLeaf (promise (h' ! root)) = l \<and>
                    stack_trace ks = (tl (fst (rec_trace b)), snd (rec_trace b)))))"

text \<open>
  The state of a recursive generator between two pulls (\<open>at_value\<close>: the leaf
  holds the value \<open>v\<close> and the bodies \<open>ks\<close> are left to run, from the leaf to
  the root), inside the loop of \<open>pull()\<close> (\<open>completed_at\<close>: the leaf \<open>x\<close> is
  complete with failure \<open>fx\<close> and its ancestors wait with the bodies \<open>ks\<close>),
  and what \<open>pull()\<close> leaves when the trace \<open>t\<close> is still to come
  (\<open>pull_post\<close>): the root complete with the failure of the trace if the trace has
  no value, the next value at the leaf otherwise.
\<close>

definition at_value :: "'a heap \<Rightarrow> nat \<Rightarrow> nat \<Rightarrow> 'a rec_body list \<Rightarrow> 'a \<Rightarrow> bool" where
  "at_value h root l ks v =
     (root < length h \<and> m_root (promise (h ! root)) = root \<and>
      m_parentOrLeaf (promise (h ! root)) = l \<and>
      suspended_chain h root l root ks \<and> m_value (promise (h ! l)) = Some v)"

definition completed_at ::
  "'a heap \<Rightarrow> nat \<Rightarrow> nat \<Rightarrow> failure option \<Rightarrow> 'a rec_body list \<Rightarrow> bool" where
  "completed_at h root x fx ks =
     (root < length h \<and> x < length h \<and> m_root (promise (h ! root)) = root \<and>
      frame (h ! x) = at_final \<and> m_exception (promise (h ! x)) = fx \<and>
      m_parentOrLeaf (promise (h ! root)) = x \<and> up h root x root ks)"

definition pull_post :: "'a heap \<Rightarrow> nat \<Rightarrow> 'a list \<times> failure option \<Rightarrow> bool" where
  "pull_post h root t =
     (if fst t = []
      then root < length h \<and> frame (h ! root) = at_final \<and>
           m_exception (promise (h ! root)) = snd t
      else (\<exists>l ks. at_value h root l ks (hd (fst t)) \<and> stack_trace ks = (tl (fst t), snd t)))"

section \<open>The functor-map adapter\<close>

text \<open>
  Both overloads of \<open>fmap\<close> are the generator coroutine
  \<^verbatim>\<open>for (auto&& value : source) co_yield std::invoke(func, value);\<close>
  over a source taken by value. Its locals are the source before the loop starts
  and the source with the loop's iterator afterwards. A failure that leaves
  \<open>begin()\<close> or \<open>operator++\<close> of the source escapes the body.
\<close>

datatype 'r fmap_locals = fmap_start 'r | fmap_loop 'r

definition fmap_next ::
  "('r, 'a) range \<Rightarrow> ('a \<Rightarrow> 'b) \<Rightarrow> (unit outcome \<times> 'r) option
     \<Rightarrow> ('r fmap_locals, 'b) suspension option" where
  "fmap_next R func x =
     (case x of
        None \<Rightarrow> None
      | Some (r, it) \<Rightarrow>
          (case r of
             Normal u \<Rightarrow>
               (if range_at_end R it then Some Returns
                else (case range_deref R it of
                        None \<Rightarrow> None
                      | Some v \<Rightarrow> Some (Yields (func v) (fmap_loop it))))
           | Raised e \<Rightarrow> Some (Throws e)
           | Terminated \<Rightarrow> None))"

definition fmap_body :: "('r, 'a) range \<Rightarrow> ('a \<Rightarrow> 'b) \<Rightarrow> ('r fmap_locals, 'b) body" where
  "fmap_body R func s =
     (case s of
        fmap_start source \<Rightarrow> fmap_next R func (range_begin R source)
      | fmap_loop it \<Rightarrow> fmap_next R func (range_incr R it))"

definition fmap ::
  "('r, 'a) range \<Rightarrow> ('a \<Rightarrow> 'b) \<Rightarrow> 'r \<Rightarrow> ('r fmap_locals, 'b) generator option" where
  "fmap R func source = call_generator (fmap_body R func) (fmap_start source)"

chapter \<open>Properties\<close>

section \<open>The exception-capture mix-in\<close>


text \<open>
  With a failure stored the call raises it. Where the member keeps the failure after
  having been passed as \<open>std::move(m_exception)\<close>, the promise is as it was before
  the call.
\<close>

lemma rethrow_if_exception_some:
  "m_exception p = Some e \<Longrightarrow>
   rethrow_if_exception moved p = (Raised e, p\<lparr>m_exception := moved (Some e)\<rparr>)"
  by (simp add: rethrow_if_exception_def)





text \<open>
  The condition on the library cannot be dropped: with an \<open>exception_ptr\<close> whose
  move constructor leaves the source null, the first call empties the member and the
  second call returns.
\<close>

lemma rethrow_if_exception_move_empties:
  "m_exception p = Some e \<Longrightarrow>
   rethrow_if_exception move_empties p = (Raised e, p\<lparr>m_exception := None\<rparr>) \<and>
   rethrow_if_exception move_empties (snd (rethrow_if_exception move_empties p))
     = (Normal (), p\<lparr>m_exception := None\<rparr>)"
  by (simp add: rethrow_if_exception_def move_empties_def)

section \<open>Task\<close>

subsection \<open>The continuation is resumed exactly once\<close>




text \<open>
  The two member functions are the two parties' actions run without interruption,
  in either order.
\<close>

lemma registration_then_completion:
  "m_state p = False \<Longrightarrow>
   try_set_continuation h p = (True, p\<lparr>m_continuation := Some h, m_state := True\<rparr>) \<and>
   final_awaitable_await_suspend (snd (try_set_continuation h p)) []
     = Some (p\<lparr>m_continuation := Some h, m_state := True\<rparr>, [h])"
  by (simp add: try_set_continuation_def store_continuation_def exchange_true_def
        final_awaitable_await_suspend_def resume_continuation_def)

lemma completion_then_registration:
  "m_state p = False \<Longrightarrow>
   final_awaitable_await_suspend p [] = Some (p\<lparr>m_state := True\<rparr>, []) \<and>
   try_set_continuation h (p\<lparr>m_state := True\<rparr>)
     = (False, p\<lparr>m_continuation := Some h, m_state := True\<rparr>)"
  by (simp add: try_set_continuation_def store_continuation_def exchange_true_def
        final_awaitable_await_suspend_def)

subsection \<open>Awaiting an empty task\<close>

text \<open>
  Claim C3, as the specification states it, says that awaiting an empty task raises
  \<open>broken_promise\<close>. For a no-fail task (\<open>NoExcept = true\<close>) the \<open>throw\<close> is inside
  a \<open>noexcept\<close> function: the process is terminated and nothing is raised.
\<close>

theorem await_empty_noexcept_task_counterexample:
  "co_await True (task_promise_T_noexcept :: (nat, nat task_promise_noexcept) promise_ops) 0
     \<lparr>coroutines = [], effects = [], resumed = []\<rparr> task_default
   = Some (Resumes Terminated, \<lparr>coroutines = [], effects = [], resumed = []\<rparr>)"
  by (simp add: co_await_def await_ready_def await_resume_def task_default_def noexcept_call_def)

text \<open>
  Claim C3, amended: awaiting a default-constructed or a moved-from task of the
  fallible kind raises \<open>broken_promise\<close> at the await point, and awaiting such a
  task of the no-fail kind terminates the process there; in both cases the awaiting
  coroutine is not suspended and the world of coroutines is left as it was, so no
  computation is started. Construction and move only produce handles.
\<close>

theorem await_empty_task:
  "task_default = None \<and> snd (task_move t) = None \<and> fst (task_move t) = t \<and>
   co_await False ops h w task_default = Some (Resumes (Raised broken_promise), w) \<and>
   co_await False ops h w (snd (task_move t)) = Some (Resumes (Raised broken_promise), w) \<and>
   co_await True ops h w task_default = Some (Resumes Terminated, w) \<and>
   co_await True ops h w (snd (task_move t)) = Some (Resumes Terminated, w)"
  by (simp add: co_await_def await_ready_def await_resume_def task_default_def task_move_def
        noexcept_call_def)

theorem await_empty_task_witness:
  "co_await False task_promise_T 3 \<lparr>coroutines = [], effects = [1], resumed = []\<rparr>
     (snd (task_move (Some 0)))
   = Some (Resumes (Raised broken_promise :: nat outcome),
           \<lparr>coroutines = [], effects = [1], resumed = []\<rparr>)"
  using await_empty_task
          [of "Some 0" "task_promise_T :: (nat, nat task_promise) promise_ops" 3
              "\<lparr>coroutines = [], effects = [1], resumed = []\<rparr>"]
  by blast

subsection \<open>Reading the result more than once\<close>



text \<open>
  \<open>task_promise<void, NoExcept>::result()\<close> is \<open>rethrow_if_exception()\<close>. No task
  has this promise, but the member function as it is written does the same: it raises
  the stored failure or returns, and leaves the promise as it is where the member
  keeps the failure it was read from.
\<close>

lemma result_void_keeps_promise:
  "moved (m_exception (mixin q)) = m_exception (mixin q) \<Longrightarrow>
   result_void moved False q
     = Some (case m_exception (mixin q) of None \<Rightarrow> Normal () | Some e \<Rightarrow> Raised e, q)"
  by (cases "m_exception (mixin q)") (simp_all add: result_void_def rethrow_if_exception_def)



subsection \<open>Cold construction of a task\<close>

lemma run_body_effects:
  "run_body ops a b w = Some (r, w') \<Longrightarrow> effects w' = effects w @ immediate_effects b"
proof (induction b arbitrary: w)
  case (CoReturn v)
  then show ?case by (auto simp: final_suspend_def split: option.splits)
next
  case (Throw e)
  then show ?case by (auto simp: final_suspend_def split: option.splits outcome.splits)
next
  case (Effect n k)
  from Effect.IH [of "w\<lparr>effects := effects w @ [n]\<rparr>"] Effect.prems show ?case by simp
next
  case (AwaitExternal k)
  then show ?case by auto
qed

lemma call_task_eq:
  "call_task ops b w =
     Some (Normal (Some (length (coroutines w))),
           w\<lparr>coroutines := coroutines w @ [\<lparr>frame = Initial b, promise = construct ops\<rparr>]\<rparr>)"
  by (simp add: call_task_def task_initial_suspend_def)

lemma co_await_effects:
  assumes "co_await NoExcept ops h
             (w\<lparr>coroutines := coroutines w @ [\<lparr>frame = Initial b, promise = construct ops\<rparr>]\<rparr>)
             (Some (length (coroutines w))) = Some (x, w')"
  shows "effects w' = effects w @ immediate_effects b"
  using assms
  by (auto simp: co_await_def await_ready_def is_done_def await_suspend_def resume_def
        await_resume_def Let_def
      split: option.splits outcome.splits prod.splits if_splits
      dest!: run_body_effects)

lemma run_body_T:
  "a < length (coroutines w) \<Longrightarrow> \<not> m_state (promise (coroutines w ! a)) \<Longrightarrow>
   \<exists>w'. run_body task_promise_T a b w = Some (Normal (), w') \<and>
        length (coroutines w') = length (coroutines w) \<and>
        (case frame (coroutines w' ! a) of
           Final \<Rightarrow> m_state (promise (coroutines w' ! a)) \<and>
                    m_result (promise (coroutines w' ! a)) \<noteq> empty_slot
         | Suspended k \<Rightarrow> \<not> m_state (promise (coroutines w' ! a))
         | Initial k \<Rightarrow> False)"
proof (induction b arbitrary: w)
  case (Effect n k)
  from Effect.IH [of "w\<lparr>effects := effects w @ [n]\<rparr>"] Effect.prems show ?case by simp
qed (auto simp: final_suspend_def final_awaitable_await_suspend_def exchange_true_def
       task_promise_T_def)

lemma co_await_T_defined:
  "\<exists>x w'. co_await False task_promise_T h
             (w\<lparr>coroutines := coroutines w @ [\<lparr>frame = Initial b, promise = construct task_promise_T\<rparr>]\<rparr>)
             (Some (length (coroutines w))) = Some (x, w')"
proof -
  let ?w = "w\<lparr>coroutines := coroutines w @ [\<lparr>frame = Initial b, promise = construct task_promise_T\<rparr>]\<rparr>"
  let ?a = "length (coroutines w)"
  have "?a < length (coroutines ?w)" "\<not> m_state (promise (coroutines ?w ! ?a))"
    by (simp_all add: task_promise_T_def)
  from run_body_T [OF this, of b] obtain w1 where
    r: "run_body task_promise_T ?a b ?w = Some (Normal (), w1)"
    and l: "length (coroutines w1) = length (coroutines ?w)"
    and f: "case frame (coroutines w1 ! ?a) of
           Final \<Rightarrow> m_state (promise (coroutines w1 ! ?a)) \<and>
                    m_result (promise (coroutines w1 ! ?a)) \<noteq> empty_slot
         | Suspended k \<Rightarrow> \<not> m_state (promise (coroutines w1 ! ?a))
         | Initial k \<Rightarrow> False"
    by blast
  show ?thesis
  proof (cases "frame (coroutines w1 ! ?a)")
    case (Initial k)
    with f show ?thesis by simp
  next
    case (Suspended k)
    with f r l show ?thesis
      by (simp add: co_await_def await_ready_def is_done_def await_suspend_def resume_def
            try_set_continuation_def exchange_true_def store_continuation_def)
  next
    case Final
    with f r l show ?thesis
      by (cases "m_result (promise (coroutines w1 ! ?a))")
         (simp_all add: co_await_def await_ready_def is_done_def await_suspend_def resume_def
            try_set_continuation_def exchange_true_def store_continuation_def await_resume_def
            task_promise_T_def result_T_def)
  qed
qed

section \<open>Generator\<close>

lemma call_generator_eq:
  "call_generator body s =
     Some (Some \<lparr>frame = Initial s, promise = \<lparr>m_exception = None, m_value = None\<rparr>\<rparr>)"
  by (simp add: call_generator_def generator_initial_suspend_def)

lemma call_recursive_generator_eq:
  "call_recursive_generator b h =
     (h @ [\<lparr>frame = at_initial b, promise = new_promise (length h)\<rparr>], Some (length h))"
  by (simp add: call_recursive_generator_def recursive_initial_suspend_def Let_def)

subsection \<open>The loop over a range\<close>

lemma range_loop_at_end: "range_at_end R it \<Longrightarrow> range_loop R it = Some ([], None)"
  by (subst range_loop.simps) simp

lemma range_loop_step:
  "\<not> range_at_end R it \<Longrightarrow>
   range_loop R it =
     (case range_deref R it of
        None \<Rightarrow> None
      | Some v \<Rightarrow>
          (case range_incr R it of
             None \<Rightarrow> None
           | Some (r, it') \<Rightarrow>
               (case r of
                  Normal u \<Rightarrow> Option.bind (range_loop R it') (\<lambda>(vs, e). Some (v # vs, e))
                | Raised e \<Rightarrow> Some ([v], Some e)
                | Terminated \<Rightarrow> None)))"
  by (subst range_loop.simps) simp

lemma generator_loop_final:
  "frame c = Final \<Longrightarrow> range_loop (generator_range moved body) (Some c) = Some ([], None)"
  by (rule range_loop_at_end) (simp add: generator_range_def iterator_eq_sentinel_def)

lemma generator_loop_suspended:
  "frame c = Suspended s \<Longrightarrow> m_value (promise c) = Some w \<Longrightarrow>
   range_loop (generator_range moved body) (Some c) =
     (case generator_resume body c of
        None \<Rightarrow> None
      | Some c' \<Rightarrow>
          (case after_resume moved c' of
             (Normal u, it') \<Rightarrow>
                Option.bind (range_loop (generator_range moved body) it') (\<lambda>(vs, e). Some (w # vs, e))
           | (Raised e, it') \<Rightarrow> Some ([w], Some e)
           | (Terminated, it') \<Rightarrow> None))"
  by (subst range_loop_step)
     (auto simp: generator_range_def iterator_eq_sentinel_def iterator_deref_def iterator_incr_def
           split: option.splits outcome.splits prod.splits)

subsection \<open>Iterating a script\<close>

lemma range_loop_script:
  "frame c = Suspended k \<Longrightarrow> m_value (promise c) = Some v \<Longrightarrow> m_exception (promise c) = None \<Longrightarrow>
   range_loop (generator_range moved script_body) (Some c) = Some (v # script_values k, script_failure k)"
proof (induction k arbitrary: c v)
  case Return
  then show ?case
    by (simp add: generator_loop_suspended generator_resume_def generator_run_def after_resume_def
          rethrow_if_exception_def generator_loop_final)
next
  case (Fail e)
  then show ?case
    by (simp add: generator_loop_suspended generator_resume_def generator_run_def after_resume_def
          rethrow_if_exception_def unhandled_exception_def)
next
  case (Yield w k)
  have "range_loop (generator_range moved script_body)
          (Some (c\<lparr>frame := Suspended k, promise := yield_value w (promise c)\<rparr>))
        = Some (w # script_values k, script_failure k)"
    by (rule Yield.IH) (simp_all add: yield_value_def Yield.prems)
  with Yield.prems show ?case
    by (simp add: generator_loop_suspended generator_resume_def generator_run_def after_resume_def)
qed

lemma range_for_script:
  "range_for (generator_range moved script_body)
     (Some \<lparr>frame = Initial b, promise = \<lparr>m_exception = None, m_value = None\<rparr>\<rparr>)
   = Some (script_values b, script_failure b)"
proof (cases b)
  case Return
  then show ?thesis
    by (simp add: range_for_def generator_range_def generator_begin_def generator_resume_def
          generator_run_def after_resume_def rethrow_if_exception_def range_loop_at_end
          iterator_eq_sentinel_def)
next
  case (Fail e)
  then show ?thesis
    by (simp add: range_for_def generator_range_def generator_begin_def generator_resume_def
          generator_run_def after_resume_def rethrow_if_exception_def unhandled_exception_def)
next
  case (Yield v k)
  have "range_loop (generator_range moved script_body)
          (Some \<lparr>frame = Suspended k, promise = \<lparr>m_exception = None, m_value = Some v\<rparr>\<rparr>)
        = Some (v # script_values k, script_failure k)"
    by (rule range_loop_script) simp_all
  then show ?thesis using Yield
    by (simp add: range_for_def generator_begin_def generator_resume_def generator_run_def
          after_resume_def yield_value_def
          generator_range_def [where body = script_body, THEN arg_cong [where f = range_begin]])
qed

subsection \<open>The iteration protocol\<close>

text \<open>
  Claim C6. \<open>begin()\<close> on a generator that holds a coroutine runs the body from its
  start to its first \<open>co_yield\<close> (the iterator then is not the end and reads the
  value), to its end (the iterator equals the end), or to the failure that escapes
  it (which \<open>begin()\<close> re-raises). An iterator equals the end sentinel exactly when
  it holds no coroutine or a complete one. \<open>operator++\<close> resumes the body to the
  next \<open>co_yield\<close>, to its end, or to an escaping failure, which it re-raises. The
  loop over a generator whose body is a script sees the values of the script in
  order and the failure of the script, if it has one; for the script that yields
  1, 2, 3 and returns, the loop sees \<open>[1, 2, 3]\<close>, and after \<open>begin()\<close> and three
  increments the iterator equals the end.
\<close>

theorem generator_protocol:
  "(call_generator body s = Some g \<longrightarrow>
      (body s = Some (Yields v s') \<longrightarrow>
         (\<exists>it. generator_begin moved body g = Some (Normal (), it) \<and>
               \<not> iterator_eq_sentinel it \<and> iterator_deref it = Some v)) \<and>
      (body s = Some Returns \<longrightarrow>
         (\<exists>it. generator_begin moved body g = Some (Normal (), it) \<and> iterator_eq_sentinel it)) \<and>
      (body s = Some (Throws e) \<longrightarrow>
         (\<exists>it. generator_begin moved body g = Some (Raised e, it) \<and> iterator_eq_sentinel it))) \<and>
   (iterator_eq_sentinel it0 \<longleftrightarrow> (it0 = None \<or> (\<exists>c0. it0 = Some c0 \<and> frame c0 = Final))) \<and>
   (frame c = Suspended s \<and> m_exception (promise c) = None \<longrightarrow>
      (body s = Some (Yields v s') \<longrightarrow>
         (\<exists>it. iterator_incr moved body (Some c) = Some (Normal (), it) \<and>
               \<not> iterator_eq_sentinel it \<and> iterator_deref it = Some v)) \<and>
      (body s = Some Returns \<longrightarrow>
         (\<exists>it. iterator_incr moved body (Some c) = Some (Normal (), it) \<and> iterator_eq_sentinel it)) \<and>
      (body s = Some (Throws e) \<longrightarrow>
         (\<exists>it. iterator_incr moved body (Some c) = Some (Raised e, it) \<and> iterator_eq_sentinel it))) \<and>
   (call_generator script_body b = Some gs \<longrightarrow>
      range_for (generator_range moved script_body) gs = Some (script_values b, script_failure b)) \<and>
   (\<exists>g0 it1 it2 it3 it4.
      call_generator script_body (Yield 1 (Yield 2 (Yield (3::nat) Return))) = Some g0 \<and>
      range_for (generator_range moved script_body) g0 = Some ([1, 2, 3], None) \<and>
      generator_begin moved script_body g0 = Some (Normal (), it1) \<and>
      \<not> iterator_eq_sentinel it1 \<and> iterator_deref it1 = Some 1 \<and>
      iterator_incr moved script_body it1 = Some (Normal (), it2) \<and>
      \<not> iterator_eq_sentinel it2 \<and> iterator_deref it2 = Some 2 \<and>
      iterator_incr moved script_body it2 = Some (Normal (), it3) \<and>
      \<not> iterator_eq_sentinel it3 \<and> iterator_deref it3 = Some 3 \<and>
      iterator_incr moved script_body it3 = Some (Normal (), it4) \<and>
      iterator_eq_sentinel it4)"
proof (intro conjI)
  show "call_generator body s = Some g \<longrightarrow>
      (body s = Some (Yields v s') \<longrightarrow>
         (\<exists>it. generator_begin moved body g = Some (Normal (), it) \<and>
               \<not> iterator_eq_sentinel it \<and> iterator_deref it = Some v)) \<and>
      (body s = Some Returns \<longrightarrow>
         (\<exists>it. generator_begin moved body g = Some (Normal (), it) \<and> iterator_eq_sentinel it)) \<and>
      (body s = Some (Throws e) \<longrightarrow>
         (\<exists>it. generator_begin moved body g = Some (Raised e, it) \<and> iterator_eq_sentinel it))"
    by (auto simp: call_generator_eq generator_begin_def generator_resume_def generator_run_def
          after_resume_def rethrow_if_exception_def unhandled_exception_def yield_value_def
          iterator_eq_sentinel_def iterator_deref_def)
  show "iterator_eq_sentinel it0 \<longleftrightarrow> (it0 = None \<or> (\<exists>c0. it0 = Some c0 \<and> frame c0 = Final))"
    by (cases it0) (simp_all add: iterator_eq_sentinel_def)
  show "frame c = Suspended s \<and> m_exception (promise c) = None \<longrightarrow>
      (body s = Some (Yields v s') \<longrightarrow>
         (\<exists>it. iterator_incr moved body (Some c) = Some (Normal (), it) \<and>
               \<not> iterator_eq_sentinel it \<and> iterator_deref it = Some v)) \<and>
      (body s = Some Returns \<longrightarrow>
         (\<exists>it. iterator_incr moved body (Some c) = Some (Normal (), it) \<and> iterator_eq_sentinel it)) \<and>
      (body s = Some (Throws e) \<longrightarrow>
         (\<exists>it. iterator_incr moved body (Some c) = Some (Raised e, it) \<and> iterator_eq_sentinel it))"
    by (auto simp: iterator_incr_def generator_resume_def generator_run_def
          after_resume_def rethrow_if_exception_def unhandled_exception_def yield_value_def
          iterator_eq_sentinel_def iterator_deref_def)
  show "call_generator script_body b = Some gs \<longrightarrow>
      range_for (generator_range moved script_body) gs = Some (script_values b, script_failure b)"
    using range_for_script [where b = b and moved = moved] by (auto simp: call_generator_eq)
  show "\<exists>g0 it1 it2 it3 it4.
      call_generator script_body (Yield 1 (Yield 2 (Yield (3::nat) Return))) = Some g0 \<and>
      range_for (generator_range moved script_body) g0 = Some ([1, 2, 3], None) \<and>
      generator_begin moved script_body g0 = Some (Normal (), it1) \<and>
      \<not> iterator_eq_sentinel it1 \<and> iterator_deref it1 = Some 1 \<and>
      iterator_incr moved script_body it1 = Some (Normal (), it2) \<and>
      \<not> iterator_eq_sentinel it2 \<and> iterator_deref it2 = Some 2 \<and>
      iterator_incr moved script_body it2 = Some (Normal (), it3) \<and>
      \<not> iterator_eq_sentinel it3 \<and> iterator_deref it3 = Some 3 \<and>
      iterator_incr moved script_body it3 = Some (Normal (), it4) \<and>
      iterator_eq_sentinel it4"
    using range_for_script
            [where b = "Yield 1 (Yield 2 (Yield (3::nat) Return))" and moved = moved]
    by (simp add: call_generator_eq generator_begin_def iterator_incr_def generator_resume_def
          generator_run_def after_resume_def rethrow_if_exception_def yield_value_def
          iterator_eq_sentinel_def iterator_deref_def)
qed

theorem generator_protocol_witness:
  "(\<exists>it. generator_begin move_copies script_body
           (Some \<lparr>frame = Initial (Yield (7::nat) Return),
                  promise = \<lparr>m_exception = None, m_value = None\<rparr>\<rparr>) = Some (Normal (), it) \<and>
         \<not> iterator_eq_sentinel it \<and> iterator_deref it = Some 7) \<and>
   (\<exists>it. iterator_incr move_copies script_body
           (Some \<lparr>frame = Suspended (Yield (7::nat) Return),
                  promise = \<lparr>m_exception = None, m_value = Some 6\<rparr>\<rparr>) = Some (Normal (), it) \<and>
         \<not> iterator_eq_sentinel it \<and> iterator_deref it = Some 7) \<and>
   range_for (generator_range move_copies script_body)
       (Some \<lparr>frame = Initial (Yield (1::nat) (Fail broken_promise)),
              promise = \<lparr>m_exception = None, m_value = None\<rparr>\<rparr>)
     = Some ([1], Some broken_promise)"
proof -
  note t = generator_protocol
          [where moved = move_copies and body = script_body
             and s = "Yield (7::nat) Return" and v = 7 and s' = Return
             and e = broken_promise and ?it0.0 = None
             and g = "Some \<lparr>frame = Initial (Yield (7::nat) Return),
                             promise = \<lparr>m_exception = None, m_value = None\<rparr>\<rparr>"
             and c = "\<lparr>frame = Suspended (Yield (7::nat) Return),
                        promise = \<lparr>m_exception = None, m_value = Some 6\<rparr>\<rparr>"
             and b = "Yield (1::nat) (Fail broken_promise)"
             and gs = "Some \<lparr>frame = Initial (Yield (1::nat) (Fail broken_promise)),
                              promise = \<lparr>m_exception = None, m_value = None\<rparr>\<rparr>"]
  from t [THEN conjunct1]
  have 1: "\<exists>it. generator_begin move_copies script_body
           (Some \<lparr>frame = Initial (Yield (7::nat) Return),
                  promise = \<lparr>m_exception = None, m_value = None\<rparr>\<rparr>) = Some (Normal (), it) \<and>
         \<not> iterator_eq_sentinel it \<and> iterator_deref it = Some 7"
    by (simp add: call_generator_eq)
  from t [THEN conjunct2, THEN conjunct2, THEN conjunct1]
  have 2: "\<exists>it. iterator_incr move_copies script_body
           (Some \<lparr>frame = Suspended (Yield (7::nat) Return),
                  promise = \<lparr>m_exception = None, m_value = Some 6\<rparr>\<rparr>) = Some (Normal (), it) \<and>
         \<not> iterator_eq_sentinel it \<and> iterator_deref it = Some 7"
    by simp
  from t [THEN conjunct2, THEN conjunct2, THEN conjunct2, THEN conjunct1]
  have 3: "range_for (generator_range move_copies script_body)
       (Some \<lparr>frame = Initial (Yield (1::nat) (Fail broken_promise)),
              promise = \<lparr>m_exception = None, m_value = None\<rparr>\<rparr>)
     = Some ([1], Some broken_promise)"
    by (simp add: call_generator_eq)
  from 1 2 3 show ?thesis by blast
qed

subsection \<open>Cold construction\<close>

text \<open>
  Claim C8: calling a coroutine function only builds the coroutine, suspended at its
  start. For a task the log of side effects and the list of resumed coroutines are
  unchanged, the new coroutine holds the whole body and is not ready; the first
  \<open>co_await\<close> then performs the side effects of the body up to its first
  suspension. For a generator the result of the call does not depend on the body at
  all, and \<open>begin()\<close> is what runs the body from its start.
\<close>

theorem construction_is_lazy:
  "(\<exists>t w1. call_task ops b w = Some (Normal t, w1) \<and>
           effects w1 = effects w \<and> resumed w1 = resumed w \<and>
           coroutines w1 = coroutines w @ [\<lparr>frame = Initial b, promise = construct ops\<rparr>] \<and>
           t = Some (length (coroutines w)) \<and> \<not> is_ready w1 t \<and>
           (\<forall>x w2. co_await NoExcept ops h w1 t = Some (x, w2)
                    \<longrightarrow> effects w2 = effects w @ immediate_effects b)) \<and>
   (\<exists>t w1 x w2. call_task task_promise_T bT wT = Some (Normal t, w1) \<and>
           co_await False task_promise_T h w1 t = Some (x, w2) \<and>
           effects w2 = effects wT @ immediate_effects bT) \<and>
   (\<exists>c. call_generator body s = Some (Some c) \<and> call_generator body' s = Some (Some c) \<and>
        frame c = Initial s \<and> m_value (promise c) = None \<and> m_exception (promise c) = None \<and>
        \<not> iterator_eq_sentinel (Some c) \<and>
        generator_begin moved body (Some c) = map_option (after_resume moved) (generator_run body s c))"
proof (intro conjI)
  let ?w1 = "w\<lparr>coroutines := coroutines w @ [\<lparr>frame = Initial b, promise = construct ops\<rparr>]\<rparr>"
  have "\<forall>x w2. co_await NoExcept ops h ?w1 (Some (length (coroutines w))) = Some (x, w2)
                    \<longrightarrow> effects w2 = effects w @ immediate_effects b"
    using co_await_effects by blast
  then show "\<exists>t w1. call_task ops b w = Some (Normal t, w1) \<and>
           effects w1 = effects w \<and> resumed w1 = resumed w \<and>
           coroutines w1 = coroutines w @ [\<lparr>frame = Initial b, promise = construct ops\<rparr>] \<and>
           t = Some (length (coroutines w)) \<and> \<not> is_ready w1 t \<and>
           (\<forall>x w2. co_await NoExcept ops h w1 t = Some (x, w2)
                    \<longrightarrow> effects w2 = effects w @ immediate_effects b)"
    by (simp add: call_task_eq is_ready_def is_done_def)
  let ?wT = "wT\<lparr>coroutines := coroutines wT @ [\<lparr>frame = Initial bT, promise = construct task_promise_T\<rparr>]\<rparr>"
  from co_await_T_defined [of h wT bT] obtain x w2 where
    c: "co_await False task_promise_T h ?wT (Some (length (coroutines wT))) = Some (x, w2)"
    by blast
  from co_await_effects [OF c] c
  show "\<exists>t w1 x w2. call_task task_promise_T bT wT = Some (Normal t, w1) \<and>
           co_await False task_promise_T h w1 t = Some (x, w2) \<and>
           effects w2 = effects wT @ immediate_effects bT"
    by (simp add: call_task_eq)
  show "\<exists>c. call_generator body s = Some (Some c) \<and> call_generator body' s = Some (Some c) \<and>
        frame c = Initial s \<and> m_value (promise c) = None \<and> m_exception (promise c) = None \<and>
        \<not> iterator_eq_sentinel (Some c) \<and>
        generator_begin moved body (Some c) = map_option (after_resume moved) (generator_run body s c)"
    by (simp add: call_generator_eq iterator_eq_sentinel_def generator_begin_def
          generator_resume_def)
qed

theorem construction_is_lazy_witness:
  "\<exists>w1 x w2.
     call_task task_promise_T (Effect 1 (Effect 2 (CoReturn (5::nat))))
        \<lparr>coroutines = [], effects = [], resumed = []\<rparr> = Some (Normal (Some 0), w1) \<and>
     effects w1 = [] \<and>
     co_await False task_promise_T 9 w1 (Some 0) = Some (x, w2) \<and>
     effects w2 = [1, 2]"
proof -
  from construction_is_lazy
         [where ops = "task_promise_T :: (nat, nat task_promise) promise_ops"
            and b = "Effect 1 (Effect 2 (CoReturn (5::nat)))"
            and w = "\<lparr>coroutines = [], effects = [], resumed = []\<rparr>"
            and NoExcept = False and h = 9, THEN conjunct1]
  obtain t w1 where
    1: "call_task task_promise_T (Effect 1 (Effect 2 (CoReturn (5::nat))))
          \<lparr>coroutines = [], effects = [], resumed = []\<rparr> = Some (Normal t, w1)"
    and 2: "effects w1 = []" and 3: "t = Some 0"
    and 4: "\<forall>x w2. co_await False task_promise_T 9 w1 t = Some (x, w2) \<longrightarrow> effects w2 = [1, 2]"
    by auto
  from 1 have w1: "w1 = \<lparr>coroutines = [\<lparr>frame = Initial (Effect 1 (Effect 2 (CoReturn 5))),
                                         promise = construct task_promise_T\<rparr>],
                          effects = [], resumed = []\<rparr>"
    by (simp add: call_task_eq)
  have "\<exists>x w2. co_await False task_promise_T 9 w1 (Some 0) = Some (x, w2)"
    unfolding w1
    by (simp add: co_await_def await_ready_def is_done_def await_suspend_def resume_def
          task_promise_T_def final_suspend_def final_awaitable_await_suspend_def exchange_true_def
          try_set_continuation_def store_continuation_def await_resume_def result_T_def
          noexcept_call_def)
  with 1 2 3 4 show ?thesis by blast
qed

subsection \<open>A generator without coroutine\<close>

text \<open>
  Claim C10: \<open>begin()\<close> on a default-constructed or moved-from generator or recursive
  generator returns normally, with an iterator that equals the end, and leaves
  every coroutine untouched; the loop over it sees the empty sequence.
\<close>

theorem begin_of_empty_generator:
  "generator_begin moved body generator_default = Some (Normal (), None) \<and>
   generator_begin moved body (snd (generator_move g)) = Some (Normal (), None) \<and>
   iterator_eq_sentinel (None :: ('s, 'a) generator) \<and>
   range_for (generator_range moved body) generator_default = Some ([], None) \<and>
   range_for (generator_range moved body) (snd (generator_move g)) = Some ([], None) \<and>
   recursive_begin moved (h, recursive_generator_default) = Some (Normal (), h, None) \<and>
   recursive_begin moved (h, snd (recursive_generator_move r)) = Some (Normal (), h, None) \<and>
   recursive_at_end (h, None) \<and>
   range_for (recursive_range moved) (h, recursive_generator_default) = Some ([], None) \<and>
   range_for (recursive_range moved) (h, snd (recursive_generator_move r)) = Some ([], None)"
  by (simp add: generator_begin_def generator_default_def generator_move_def
        iterator_eq_sentinel_def range_for_def generator_range_def range_loop_at_end
        recursive_begin_def recursive_generator_default_def recursive_generator_move_def
        recursive_at_end_def recursive_range_def)

section \<open>The functor-map adapter\<close>

lemma fmap_body_simps:
  "fmap_body R func (fmap_start source) = fmap_next R func (range_begin R source)"
  "fmap_body R func (fmap_loop it) = fmap_next R func (range_incr R it)"
  by (simp_all add: fmap_body_def)

lemma fmap_loop_maps:
  "range_loop R it = Some (vs, e) \<Longrightarrow> \<not> range_at_end R it \<Longrightarrow> range_deref R it = Some v \<Longrightarrow>
   frame c = Suspended (fmap_loop it) \<Longrightarrow> m_value (promise c) = Some (func v) \<Longrightarrow>
   m_exception (promise c) = None \<Longrightarrow>
   range_loop (generator_range moved (fmap_body R func)) (Some c) = Some (map func vs, e)"
proof (induction vs arbitrary: it v c)
  case Nil
  then show ?case
    by (auto simp: range_loop_step split: option.splits outcome.splits prod.splits
             simp: Option.bind_eq_Some_conv)
next
  case (Cons x vs)
  let ?G = "generator_range moved (fmap_body R func)"
  from Cons.prems obtain r it' where incr: "range_incr R it = Some (r, it')"
    by (auto simp: range_loop_step split: option.splits)
  show ?case
  proof (cases r)
    case (Normal u)
    with Cons.prems incr have rest: "range_loop R it' = Some (vs, e)" and x: "x = v"
      by (auto simp: range_loop_step Option.bind_eq_Some_conv)
    show ?thesis
    proof (cases "range_at_end R it'")
      case True
      with rest have "vs = []" "e = None" by (simp_all add: range_loop_at_end)
      with Cons.prems incr Normal True x show ?thesis
        by (simp add: generator_loop_suspended generator_resume_def generator_run_def fmap_body_simps
              fmap_next_def after_resume_def rethrow_if_exception_def generator_loop_final)
    next
      case False
      with rest obtain v' where d: "range_deref R it' = Some v'"
        by (auto simp: range_loop_step split: option.splits)
      let ?c' = "c\<lparr>frame := Suspended (fmap_loop it'), promise := yield_value (func v') (promise c)\<rparr>"
      have "range_loop ?G (Some ?c') = Some (map func vs, e)"
        by (rule Cons.IH [OF rest False d]) (simp_all add: yield_value_def Cons.prems)
      with Cons.prems incr Normal False x d show ?thesis
        by (simp add: generator_loop_suspended generator_resume_def generator_run_def fmap_body_simps
              fmap_next_def after_resume_def)
    qed
  next
    case (Raised e')
    with Cons.prems incr have "vs = []" "e = Some e'" "x = v"
      by (auto simp: range_loop_step)
    with Cons.prems incr Raised show ?thesis
      by (simp add: generator_loop_suspended generator_resume_def generator_run_def fmap_body_simps
            fmap_next_def after_resume_def rethrow_if_exception_def unhandled_exception_def)
  next
    case Terminated
    with Cons.prems incr show ?thesis
      by (auto simp: range_loop_step)
  qed
qed

lemma fmap_maps:
  assumes src: "range_for R source = Some (vs, e)"
    and g: "fmap R func source = Some g"
  shows "range_for (generator_range moved (fmap_body R func)) g = Some (map func vs, e)"
proof -
  let ?G = "generator_range moved (fmap_body R func)"
  have g': "g = Some \<lparr>frame = Initial (fmap_start source), promise = \<lparr>m_exception = None, m_value = None\<rparr>\<rparr>"
    using g by (simp add: fmap_def call_generator_eq)
  from src obtain r it where b: "range_begin R source = Some (r, it)"
    by (auto simp: range_for_def split: option.splits)
  show ?thesis
  proof (cases r)
    case (Normal u)
    with src b have loop: "range_loop R it = Some (vs, e)"
      by (simp add: range_for_def)
    show ?thesis
    proof (cases "range_at_end R it")
      case True
      with loop have "vs = []" "e = None" by (simp_all add: range_loop_at_end)
      with b Normal True show ?thesis unfolding g'
        by (simp add: range_for_def generator_range_def generator_begin_def generator_resume_def
              generator_run_def fmap_body_simps fmap_next_def after_resume_def rethrow_if_exception_def
              range_loop_at_end iterator_eq_sentinel_def)
    next
      case False
      with loop obtain v where d: "range_deref R it = Some v"
        by (auto simp: range_loop_step split: option.splits)
      let ?c = "\<lparr>frame = Suspended (fmap_loop it), promise = \<lparr>m_exception = None, m_value = Some (func v)\<rparr>\<rparr>"
      have "range_loop ?G (Some ?c) = Some (map func vs, e)"
        by (rule fmap_loop_maps [OF loop False d]) simp_all
      with b Normal False d show ?thesis unfolding g'
        by (simp add: range_for_def generator_begin_def generator_resume_def
              generator_run_def fmap_body_simps fmap_next_def after_resume_def yield_value_def
              generator_range_def [where body = "fmap_body R func", THEN arg_cong [where f = range_begin]])
    qed
  next
    case (Raised e')
    with src b have "vs = []" "e = Some e'" by (simp_all add: range_for_def)
    with b Raised show ?thesis unfolding g'
      by (simp add: range_for_def generator_range_def generator_begin_def generator_resume_def
            generator_run_def fmap_body_simps fmap_next_def after_resume_def rethrow_if_exception_def
            unhandled_exception_def)
  next
    case Terminated
    with src b show ?thesis by (simp add: range_for_def)
  qed
qed

text \<open>
  One increment of the mapped generator is one increment of the source: it leaves
  the mapped iterator at \<open>func\<close> of the source's next value, at the end when the
  source is at its end, and re-raises a failure of the source.
\<close>

lemma fmap_step:
  "frame c = Suspended (fmap_loop it) \<Longrightarrow> m_exception (promise c) = None \<Longrightarrow>
   range_incr R it = Some (r, it') \<Longrightarrow>
   (r = Normal () \<and> \<not> range_at_end R it' \<and> range_deref R it' = Some v \<longrightarrow>
      (\<exists>c'. iterator_incr moved (fmap_body R func) (Some c) = Some (Normal (), Some c') \<and>
            frame c' = Suspended (fmap_loop it') \<and> iterator_deref (Some c') = Some (func v))) \<and>
   (r = Normal () \<and> range_at_end R it' \<longrightarrow>
      (\<exists>c'. iterator_incr moved (fmap_body R func) (Some c) = Some (Normal (), Some c') \<and>
            iterator_eq_sentinel (Some c'))) \<and>
   (r = Raised e \<longrightarrow>
      (\<exists>c'. iterator_incr moved (fmap_body R func) (Some c) = Some (Raised e, Some c') \<and>
            iterator_eq_sentinel (Some c')))"
  by (auto simp: iterator_incr_def generator_resume_def generator_run_def fmap_body_simps
        fmap_next_def after_resume_def rethrow_if_exception_def unhandled_exception_def
        yield_value_def iterator_deref_def iterator_eq_sentinel_def)

text \<open>
  Claim C9: whenever the loop over a source, plain or recursive, sees the values
  \<open>vs\<close> and ends with the failure \<open>e\<close> or without one, \<open>fmap func source\<close> is a
  plain generator (not yet started) and the loop over it sees \<open>map func vs\<close> and
  ends the same way. For a source of any kind and length, an increment of the
  mapped iterator that finds the source at a next value \<open>v\<close> leaves the mapped
  iterator at \<open>func v\<close>.
\<close>

theorem fmap_yields_func_of_each_element:
  "(range_for (generator_range moved body) source = Some (vs, e) \<longrightarrow>
      (\<exists>g. fmap (generator_range moved body) func source = Some g \<and>
           range_for (generator_range moved (fmap_body (generator_range moved body) func)) g
             = Some (map func vs, e))) \<and>
   (range_for (recursive_range moved) rsource = Some (vs', e') \<longrightarrow>
      (\<exists>g. fmap (recursive_range moved) func rsource = Some g \<and>
           range_for (generator_range moved (fmap_body (recursive_range moved) func)) g
             = Some (map func vs', e'))) \<and>
   (frame c = Suspended (fmap_loop it) \<and> m_exception (promise c) = None \<and>
    range_incr R it = Some (Normal (), it') \<and> \<not> range_at_end R it' \<and>
    range_deref R it' = Some v \<longrightarrow>
      (\<exists>c'. iterator_incr moved (fmap_body R func) (Some c) = Some (Normal (), Some c') \<and>
            frame c' = Suspended (fmap_loop it') \<and> iterator_deref (Some c') = Some (func v)))"
proof (intro conjI impI)
  assume a: "range_for (generator_range moved body) source = Some (vs, e)"
  obtain g where g: "fmap (generator_range moved body) func source = Some g"
    by (simp add: fmap_def call_generator_eq)
  from fmap_maps [OF a g] g
  show "\<exists>g. fmap (generator_range moved body) func source = Some g \<and>
           range_for (generator_range moved (fmap_body (generator_range moved body) func)) g
             = Some (map func vs, e)"
    by blast
next
  assume a: "range_for (recursive_range moved) rsource = Some (vs', e')"
  obtain g where g: "fmap (recursive_range moved) func rsource = Some g"
    by (simp add: fmap_def call_generator_eq)
  from fmap_maps [OF a g] g
  show "\<exists>g. fmap (recursive_range moved) func rsource = Some g \<and>
           range_for (generator_range moved (fmap_body (recursive_range moved) func)) g
             = Some (map func vs', e')"
    by blast
next
  assume "frame c = Suspended (fmap_loop it) \<and> m_exception (promise c) = None \<and>
    range_incr R it = Some (Normal (), it') \<and> \<not> range_at_end R it' \<and>
    range_deref R it' = Some v"
  then show "\<exists>c'. iterator_incr moved (fmap_body R func) (Some c) = Some (Normal (), Some c') \<and>
            frame c' = Suspended (fmap_loop it') \<and> iterator_deref (Some c') = Some (func v)"
    using fmap_step [where c = c and it = it and R = R and r = "Normal ()" and it' = it'
                       and v = v and func = func and moved = moved]
    by simp
qed

theorem fmap_yields_func_of_each_element_witness:
  "range_for (generator_range move_copies script_body)
      (Some \<lparr>frame = Initial (Yield 1 (Yield 2 (Yield (3::nat) Return))),
             promise = \<lparr>m_exception = None, m_value = None\<rparr>\<rparr>) = Some ([1, 2, 3], None) \<and>
   (\<exists>g. fmap (generator_range move_copies script_body) (\<lambda>x. x * 2)
            (Some \<lparr>frame = Initial (Yield 1 (Yield 2 (Yield (3::nat) Return))),
                   promise = \<lparr>m_exception = None, m_value = None\<rparr>\<rparr>) = Some g \<and>
        range_for (generator_range move_copies (fmap_body (generator_range move_copies script_body) (\<lambda>x. x * 2))) g
          = Some ([2, 4, 6], None)) \<and>
   range_for (recursive_range move_copies)
      (call_recursive_generator
         (RYield 1 (RYieldNested (RYield 2 (RYield (3::nat) RReturn)) RReturn)) [])
     = Some ([1, 2, 3], None) \<and>
   (\<exists>g. fmap (recursive_range move_copies) (\<lambda>x. x * 2)
            (call_recursive_generator
               (RYield 1 (RYieldNested (RYield 2 (RYield (3::nat) RReturn)) RReturn)) []) = Some g \<and>
        range_for (generator_range move_copies (fmap_body (recursive_range move_copies) (\<lambda>x. x * 2))) g
          = Some ([2, 4, 6], None))"
proof -
  have 1: "range_for (generator_range move_copies script_body)
      (Some \<lparr>frame = Initial (Yield 1 (Yield 2 (Yield (3::nat) Return))),
             promise = \<lparr>m_exception = None, m_value = None\<rparr>\<rparr>) = Some ([1, 2, 3], None)"
    by (simp add: range_for_script)
  have 2: "range_for (recursive_range move_copies)
      (call_recursive_generator
         (RYield 1 (RYieldNested (RYield 2 (RYield (3::nat) RReturn)) RReturn)) [])
     = Some ([1, 2, 3], None)"
    by code_simp
  note t = fmap_yields_func_of_each_element
      [where moved = move_copies and body = script_body and func = "\<lambda>x::nat. x * 2"
         and source = "Some \<lparr>frame = Initial (Yield 1 (Yield 2 (Yield (3::nat) Return))),
                              promise = \<lparr>m_exception = None, m_value = None\<rparr>\<rparr>"
         and vs = "[1, 2, 3]" and e = None
         and rsource = "call_recursive_generator
               (RYield 1 (RYieldNested (RYield 2 (RYield (3::nat) RReturn)) RReturn)) []"
         and vs' = "[1, 2, 3]" and e' = None]
  from t [THEN conjunct1] 1 t [THEN conjunct2, THEN conjunct1] 2 show ?thesis
    by simp
qed

section \<open>Recursive generator\<close>

subsection \<open>The heap and the chain\<close>

lemma length_set_frame [simp]: "length (set_frame a f h) = length h"
  by (simp add: set_frame_def)

lemma length_update_promise [simp]: "length (update_promise a g h) = length h"
  by (simp add: update_promise_def)

lemma nth_set_frame:
  "set_frame a f h ! y = (if y = a \<and> a < length h then (h ! a)\<lparr>frame := f\<rparr> else h ! y)"
  by (cases "a < length h") (auto simp: set_frame_def nth_list_update list_update_beyond)

lemma nth_update_promise:
  "update_promise a g h ! y =
     (if y = a \<and> a < length h then (h ! a)\<lparr>promise := g (promise (h ! a))\<rparr> else h ! y)"
  by (cases "a < length h") (auto simp: update_promise_def nth_list_update list_update_beyond)

lemma then_trace_simps [simp]:
  "then_trace (vs, Some e) u = (vs, Some e)"
  "then_trace (vs, None) u = (vs @ fst u, snd u)"
  "then_trace ([], None) u = u"
  "then_trace t ([], None) = t"
  by (cases t; auto simp: then_trace_def split: option.splits prod.splits)+

lemma then_trace_assoc: "then_trace (then_trace t u) w = then_trace t (then_trace u w)"
  by (cases t; cases u; cases w) (auto simp: then_trace_def split: option.splits)

lemma stack_trace_append:
  "stack_trace (xs @ ys) = then_trace (stack_trace xs) (stack_trace ys)"
  by (induction xs) (simp_all add: then_trace_assoc)

lemma unchanged_refl [simp]: "unchanged h h y"
  by (simp add: unchanged_def)

lemma same_link_refl [simp]: "same_link h h y"
  by (simp add: same_link_def)

lemma unchanged_trans: "unchanged h h1 y \<Longrightarrow> unchanged h1 h2 y \<Longrightarrow> unchanged h h2 y"
  by (simp add: unchanged_def)

lemma same_link_trans: "same_link h h1 y \<Longrightarrow> same_link h1 h2 y \<Longrightarrow> same_link h h2 y"
  by (simp add: same_link_def)

lemma up_le: "up h root x stop ks \<Longrightarrow> stop \<le> x"
  by (induction ks arbitrary: x) (auto, fastforce)

lemma up_preserved:
  "up h root x stop ks \<Longrightarrow>
   (\<forall>y. stop \<le> y \<and> y < x \<longrightarrow> unchanged h h' y) \<Longrightarrow>
   (\<forall>y. stop < y \<and> y \<le> x \<longrightarrow> same_link h h' y) \<Longrightarrow>
   up h' root x stop ks"
proof (induction ks arbitrary: x)
  case Nil
  then show ?case by simp
next
  case (Cons k ks)
  let ?p = "m_parentOrLeaf (promise (h ! x))"
  from Cons.prems(1) have x: "x \<noteq> stop" and px: "?p < x" and rp: "root \<le> ?p"
    and f: "frame (h ! ?p) = at_yield_nested x k" and r: "m_root (promise (h ! ?p)) = root"
    and e: "m_exception (promise (h ! ?p)) = None" and u: "up h root ?p stop ks"
    by simp_all
  from up_le [OF u] have tp: "stop \<le> ?p" .
  from Cons.prems(1) up_le [OF Cons.prems(1)] x have tx: "stop < x" by simp
  with Cons.prems(3) have l: "m_parentOrLeaf (promise (h' ! x)) = ?p"
    by (simp add: same_link_def)
  from Cons.prems(2) tp px have un: "unchanged h h' ?p" by simp
  have "up h' root ?p stop ks"
    by (rule Cons.IH [OF u]) (use Cons.prems(2,3) px in auto)
  with x px rp f r e l un show ?case
    by (simp add: unchanged_def)
qed

lemma up_append:
  "up h root x mid ks1 \<Longrightarrow> up h root mid stop ks2 \<Longrightarrow> up h root x stop (ks1 @ ks2)"
proof (induction ks1 arbitrary: x)
  case Nil
  then show ?case by simp
next
  case (Cons k ks)
  from Cons.prems(1) have "mid \<le> m_parentOrLeaf (promise (h ! x))" 
    using up_le by fastforce
  moreover from up_le [OF Cons.prems(2)] have "stop \<le> mid" .
  ultimately have "x \<noteq> stop" using Cons.prems(1) by auto
  with Cons show ?case by simp
qed

lemma up_stop:
  "up h root x stop ks \<Longrightarrow> ks \<noteq> [] \<Longrightarrow>
   (\<exists>y k. frame (h ! stop) = at_yield_nested y k) \<and>
   m_root (promise (h ! stop)) = root \<and> m_exception (promise (h ! stop)) = None"
proof (induction ks arbitrary: x)
  case Nil
  then show ?case by simp
next
  case (Cons k ks)
  then show ?case by (cases ks) auto
qed

lemma suspended_chain_stop:
  assumes a: "suspended_chain h root l stop ks"
  shows "frame (h ! stop) \<noteq> at_final \<and> (\<forall>b. frame (h ! stop) \<noteq> at_initial b) \<and>
   stop \<le> l \<and> l < length h \<and>
   m_root (promise (h ! stop)) = root \<and> m_exception (promise (h ! stop)) = None"
proof -
  from a obtain k ks' where ks: "ks = k # ks'" by (cases ks) auto
  with a have u: "up h root l stop ks'" and l: "l < length h" by simp_all
  show ?thesis
  proof (cases ks')
    case Nil
    with a ks show ?thesis by auto
  next
    case (Cons k' ks'')
    then have ne: "ks' \<noteq> []" by simp
    from up_stop [OF u ne] up_le [OF u] l show ?thesis by auto
  qed
qed

lemma suspended_chain_preserved:
  assumes a: "suspended_chain h root l stop ks" and len: "length h \<le> length h'"
    and un: "\<forall>y. stop \<le> y \<and> y \<le> l \<longrightarrow> unchanged h h' y"
    and sl: "\<forall>y. stop < y \<and> y \<le> l \<longrightarrow> same_link h h' y"
  shows "suspended_chain h' root l stop ks"
proof -
  from a obtain k ks' where ks: "ks = k # ks'" by (cases ks) auto
  from a ks have u: "up h root l stop ks'" by simp
  from up_le [OF u] un have "unchanged h h' l" by simp
  moreover have "up h' root l stop ks'"
    by (rule up_preserved [OF u]) (use un sl in auto)
  ultimately show ?thesis using a ks len
    by (simp add: unchanged_def)
qed

lemma suspended_chain_append:
  assumes a: "suspended_chain h root l mid ks1" and u: "up h root mid stop ks2"
  shows "suspended_chain h root l stop (ks1 @ ks2)"
proof -
  from a obtain k ks' where ks: "ks1 = k # ks'" by (cases ks1) auto
  with a have "up h root l mid ks'" by simp
  from up_append [OF this u] a ks show ?thesis by simp
qed

subsection \<open>Running a body\<close>

text \<open>
  Running the body of the leaf establishes \<open>exec_post\<close>: first for the bodies
  without a nested generator in front, then, with the facts about linking and
  unlinking a fresh child, for every body by induction.
\<close>

lemma exec_post_simple:
  assumes a: "a < length h" and r: "m_root (promise (h ! a)) = root" and ra: "root \<le> a"
    and l: "m_parentOrLeaf (promise (h ! root)) = a"
    and x: "m_exception (promise (h ! a)) = None"
  shows "exec_post h a root RReturn (exec h a RReturn)"
    and "exec_post h a root (RYield v k) (exec h a (RYield v k))"
    and "exec_post h a root (RThrow e) (exec h a (RThrow e))"
proof -
  from a ra have rl: "root < length h" by simp
  show "exec_post h a root RReturn (exec h a RReturn)"
    using a r ra l rl x
    by (auto simp: exec_post_def nth_set_frame unchanged_def same_link_def)
  show "exec_post h a root (RThrow e) (exec h a (RThrow e))"
    using a r ra l rl
    by (auto simp: exec_post_def nth_set_frame nth_update_promise unchanged_def same_link_def
          unhandled_exception_def)
  let ?h' = "set_frame a (at_yield k) (update_promise a (yield_value v) h)"
  have f: "frame (?h' ! a) = at_yield k"
    and p: "promise (?h' ! a) = (promise (h ! a))\<lparr>m_value := Some v\<rparr>"
    and o: "\<And>y. y \<noteq> a \<Longrightarrow> ?h' ! y = h ! y"
    using a by (simp_all add: nth_set_frame nth_update_promise yield_value_def)
  have sc: "suspended_chain ?h' root a a [k]"
    using a ra r x f p by simp
  have lk: "m_parentOrLeaf (promise (?h' ! root)) = a"
    using l p o [of root] by (cases "root = a") simp_all
  have "\<exists>l ks. suspended_chain ?h' root l a ks \<and>
           m_value (promise (?h' ! l)) = Some v \<and>
           m_parentOrLeaf (promise (?h' ! root)) = l \<and>
           stack_trace ks = (fst (rec_trace k), snd (rec_trace k))"
    using sc lk p by (intro exI [of _ a] exI [of _ "[k]"]) simp
  moreover have "\<forall>y. y < length h \<and> y \<noteq> a \<longrightarrow> unchanged h ?h' y"
    using o by (simp add: unchanged_def)
  moreover have "\<forall>y. y < length h \<and> y \<noteq> root \<longrightarrow> same_link h ?h' y"
  proof (intro allI impI)
    fix y show "same_link h ?h' y"
      by (cases "y = a") (simp_all add: same_link_def o p)
  qed
  ultimately show "exec_post h a root (RYield v k) (exec h a (RYield v k))"
    using p r by (simp add: exec_post_def)
qed

lemma link_child_fresh:
  fixes h :: "'a heap" and c :: "'a rec_body"
  assumes a: "a < length h" and r: "m_root (promise (h ! a)) = root" and ra: "root \<le> a"
    and h2: "h2 = link_child a (length h)
                    (h @ [\<lparr>frame = at_initial c, promise = new_promise (length h)\<rparr>])"
  shows "length h2 = Suc (length h)"
    and "frame (h2 ! length h) = at_initial c"
    and "promise (h2 ! length h)
           = \<lparr>m_exception = None, m_value = None, m_root = root, m_parentOrLeaf = a\<rparr>"
    and "\<And>y. y < length h \<Longrightarrow> unchanged h h2 y"
    and "\<And>y. y < length h \<Longrightarrow> y \<noteq> root \<Longrightarrow> same_link h h2 y"
    and "m_parentOrLeaf (promise (h2 ! root)) = length h"
  using a r ra unfolding h2
  by (simp_all add: link_child_def Let_def nth_update_promise nth_append new_promise_def
        unchanged_def same_link_def)

lemma unlink_child_root:
  assumes r: "m_root (promise (h ! a)) = root" and rl: "root < length h"
  shows "length (unlink_child a h) = length h"
    and "\<And>y. unchanged h (unlink_child a h) y"
    and "\<And>y. y \<noteq> root \<Longrightarrow> same_link h (unlink_child a h) y"
    and "m_parentOrLeaf (promise (unlink_child a h ! root)) = a"
  using r rl
  by (simp_all add: unlink_child_def nth_update_promise unchanged_def same_link_def)

lemma exec_correct:
  "a < length h \<Longrightarrow> m_root (promise (h ! a)) = root \<Longrightarrow> root \<le> a \<Longrightarrow>
   m_parentOrLeaf (promise (h ! root)) = a \<Longrightarrow> m_exception (promise (h ! a)) = None \<Longrightarrow>
   exec_post h a root b (exec h a b)"
proof (induction b arbitrary: h a)
  case RReturn
  then show ?case by (rule exec_post_simple)
next
  case (RThrow e)
  then show ?case by (rule exec_post_simple)
next
  case (RYield v k)
  from RYield.prems show ?case by (rule exec_post_simple)
next
  case (RYieldEmpty k)
  from RYieldEmpty.IH [OF RYieldEmpty.prems] show ?case
    by (simp add: exec_post_def)
next
  case (RYieldNested c k)
  note a = \<open>a < length h\<close> and r = \<open>m_root (promise (h ! a)) = root\<close> and ra = \<open>root \<le> a\<close>
    and lf = \<open>m_parentOrLeaf (promise (h ! root)) = a\<close>
    and ex = \<open>m_exception (promise (h ! a)) = None\<close>
  from a ra have rl: "root < length h" by simp
  define child where "child = length h"
  define h2 where "h2 = link_child a (length h)
                    (h @ [\<lparr>frame = at_initial c, promise = new_promise (length h)\<rparr>])"
  define h3 where "h3 = exec h2 child c"
  note L = link_child_fresh [OF a r ra h2_def]
  have e: "exec h a (RYieldNested c k) =
             (if \<not> is_complete h3 child then set_frame a (at_yield_nested child k) h3
              else exec (unlink_child a h3) a k)"
    by (simp add: Let_def h3_def h2_def child_def)
  have c1: "child < length h2" and c2: "m_root (promise (h2 ! child)) = root"
    and c3: "root \<le> child" and c4: "m_parentOrLeaf (promise (h2 ! root)) = child"
    and c5: "m_exception (promise (h2 ! child)) = None"
    and c6: "m_parentOrLeaf (promise (h2 ! child)) = a"
    using L(1,3,6) ra a by (simp_all add: child_def)
  from RYieldNested.IH(1) [OF c1 c2 c3 c4 c5]
  have P: "exec_post h2 child root c h3" by (simp add: h3_def)
  from P have len3: "length h2 \<le> length h3"
    and un3: "\<And>y. y < length h2 \<Longrightarrow> y \<noteq> child \<Longrightarrow> unchanged h2 h3 y"
    and sl3: "\<And>y. y < length h2 \<Longrightarrow> y \<noteq> root \<Longrightarrow> same_link h2 h3 y"
    by (simp_all add: exec_post_def)
  have old: "\<And>y. y < length h \<Longrightarrow> y < length h2 \<and> y \<noteq> child"
    using L(1) by (simp add: child_def)
  have un03: "\<And>y. y < length h \<Longrightarrow> unchanged h h3 y"
    using unchanged_trans [OF L(4) un3] old by blast
  have sl03: "\<And>y. y < length h \<Longrightarrow> y \<noteq> root \<Longrightarrow> same_link h h3 y"
    using same_link_trans [OF L(5) sl3] old by blast
  have a3: "m_root (promise (h3 ! a)) = root" "m_exception (promise (h3 ! a)) = None"
    using un03 [OF a] r ex by (simp_all add: unchanged_def)
  show ?case
  proof (cases "fst (rec_trace c) = []")
    case True
    with P have fin: "frame (h3 ! child) = at_final" by (simp add: exec_post_def)
    define h4 where "h4 = unlink_child a h3"
    from rl L(1) len3 have rl3: "root < length h3" by simp
    note U = unlink_child_root [OF a3(1) rl3]
    have e': "exec h a (RYieldNested c k) = exec h4 a k"
      using fin by (simp add: e is_complete_def h4_def del: exec.simps)
    have k1: "a < length h4" using a L(1) len3 U(1) by (simp add: h4_def)
    have k2: "m_root (promise (h4 ! a)) = root" "m_exception (promise (h4 ! a)) = None"
      using U(2) [of a] a3 by (simp_all add: unchanged_def h4_def)
    have k3: "m_parentOrLeaf (promise (h4 ! root)) = a" using U(4) by (simp add: h4_def)
    from RYieldNested.IH(2) [OF k1 k2(1) ra k3 k2(2)]
    have Q: "exec_post h4 a root k (exec h4 a k)" .
    have len4: "length h \<le> length h4" using L(1) len3 U(1) by (simp add: h4_def)
    have un04: "\<And>y. y < length h \<Longrightarrow> unchanged h h4 y"
      using unchanged_trans [OF un03 U(2)] by (simp add: h4_def)
    have sl04: "\<And>y. y < length h \<Longrightarrow> y \<noteq> root \<Longrightarrow> same_link h h4 y"
      using same_link_trans [OF sl03 U(3)] by (simp add: h4_def)
    from Q have un45: "\<And>y. y < length h4 \<Longrightarrow> y \<noteq> a \<Longrightarrow> unchanged h4 (exec h4 a k) y"
      and sl45: "\<And>y. y < length h4 \<Longrightarrow> y \<noteq> root \<Longrightarrow> same_link h4 (exec h4 a k) y"
      and len5: "length h4 \<le> length (exec h4 a k)"
      by (simp_all add: exec_post_def)
    have "\<forall>y. y < length h \<and> y \<noteq> a \<longrightarrow> unchanged h (exec h4 a k) y"
      using unchanged_trans [OF un04 un45] len4 by auto
    moreover have "\<forall>y. y < length h \<and> y \<noteq> root \<longrightarrow> same_link h (exec h4 a k) y"
      using same_link_trans [OF sl04 sl45] len4 by auto
    moreover have "length h \<le> length (exec h4 a k)" using len4 len5 by simp
    ultimately show ?thesis using Q True unfolding e'
      by (simp add: exec_post_def)
  next
    case False
    with P obtain l ks where
      sc: "suspended_chain h3 root l child ks"
      and mv: "m_value (promise (h3 ! l)) = Some (hd (fst (rec_trace c)))"
      and lk: "m_parentOrLeaf (promise (h3 ! root)) = l"
      and st: "stack_trace ks = (tl (fst (rec_trace c)), snd (rec_trace c))"
      by (auto simp: exec_post_def)
    from suspended_chain_stop [OF sc] have nf: "frame (h3 ! child) \<noteq> at_final"
      and cl: "child \<le> l" and ll: "l < length h3" by simp_all
    define h' where "h' = set_frame a (at_yield_nested child k) h3"
    have e': "exec h a (RYieldNested c k) = h'"
      using nf by (simp add: e is_complete_def h'_def del: exec.simps)
    have a3l: "a < length h3" using a L(1) len3 by simp
    have ac: "a < child" using a by (simp add: child_def)
    have fa: "frame (h' ! a) = at_yield_nested child k" "promise (h' ! a) = promise (h3 ! a)"
      and oth: "\<And>y. y \<noteq> a \<Longrightarrow> h' ! y = h3 ! y"
      and len': "length h' = length h3"
      using a3l by (simp_all add: h'_def nth_set_frame)
    have sc': "suspended_chain h' root l child ks"
      by (rule suspended_chain_preserved [OF sc])
         (use ac oth len' in \<open>auto simp: unchanged_def same_link_def\<close>)
    have "same_link h2 h3 child" using sl3 [OF c1] c3 ra ac by simp
    with c6 oth [of child] ac have pc: "m_parentOrLeaf (promise (h' ! child)) = a"
      by (simp add: same_link_def)
    have upc: "up h' root child a [k]"
      using pc ac ra fa a3 by simp
    from suspended_chain_append [OF sc' upc]
    have chain: "suspended_chain h' root l a (ks @ [k])" .
    have la: "l \<noteq> a" using cl ac by simp
    have mv': "m_value (promise (h' ! l)) = Some (hd (fst (rec_trace c)))"
      using mv oth [OF la] by simp
    have lk': "m_parentOrLeaf (promise (h' ! root)) = l"
      using lk fa(2) oth [of root] by (cases "root = a") simp_all
    have tr: "stack_trace (ks @ [k])
                = (tl (fst (rec_trace (RYieldNested c k))), snd (rec_trace (RYieldNested c k)))"
      and hd: "hd (fst (rec_trace (RYieldNested c k))) = hd (fst (rec_trace c))"
      and ne: "fst (rec_trace (RYieldNested c k)) \<noteq> []"
      using False st
      by (cases "rec_trace c"; cases "snd (rec_trace c)"; simp add: stack_trace_append)+
    have "\<forall>y. y < length h \<and> y \<noteq> a \<longrightarrow> unchanged h h' y"
      using un03 oth by (auto simp: unchanged_def)
    moreover have "\<forall>y. y < length h \<and> y \<noteq> root \<longrightarrow> same_link h h' y"
    proof (intro allI impI)
      fix y assume "y < length h \<and> y \<noteq> root"
      with sl03 have "same_link h h3 y" by simp
      then show "same_link h h' y"
        using fa(2) oth [of y] by (cases "y = a") (simp_all add: same_link_def)
    qed
    moreover have "length h \<le> length h'" using L(1) len3 len' by simp
    moreover have "m_root (promise (h' ! a)) = root" using fa(2) a3 by simp
    ultimately show ?thesis using chain mv' lk' tr hd ne
      unfolding e' exec_post_def by (simp only: if_False simp_thms) blast
  qed
qed

subsection \<open>Pulling the next value\<close>

text \<open>
  The loop of \<open>pull()\<close> stops at a leaf that is the root or is not complete, and
  otherwise moves the leaf link to the parent and resumes the parent. From a
  complete leaf it climbs until a body yields a value or the root is complete; a
  failure of the leaf is handed from child to parent on the way
  (\<open>ascend\<close>). So one \<open>pull()\<close> from a chain that holds a value consumes the first
  value of the trace that is left (\<open>pull_at_value\<close>).
\<close>

lemma pull_loop_done:
  "m_parentOrLeaf (promise (h ! root)) = l \<Longrightarrow> l < length h \<Longrightarrow>
   l = root \<or> frame (h ! l) \<noteq> at_final \<Longrightarrow> pull_loop moved h root = Some h"
  by (subst pull_loop.simps) (auto simp: is_complete_def)

lemma pull_loop_ascend:
  "m_parentOrLeaf (promise (h ! root)) = x \<Longrightarrow> x < length h \<Longrightarrow> x \<noteq> root \<Longrightarrow>
   frame (h ! x) = at_final \<Longrightarrow>
   pull_loop moved h root =
     (case rec_resume moved (update_promise root (\<lambda>p. p\<lparr>m_parentOrLeaf := m_parentOrLeaf (promise (h ! x))\<rparr>) h)
             (m_parentOrLeaf (promise (h ! x))) of
        None \<Rightarrow> None
      | Some h2 \<Rightarrow> pull_loop moved h2 root)"
  by (subst pull_loop.simps) (simp add: is_complete_def Let_def)

lemma resume_then_loop:
  assumes p: "p < length h" and r: "m_root (promise (h ! p)) = root" and rp: "root \<le> p"
    and lf: "m_parentOrLeaf (promise (h ! root)) = p"
    and ex: "m_exception (promise (h ! p)) = None"
    and u: "up h root p root ks"
    and rr: "m_root (promise (h ! root)) = root"
    and ascend: "\<And>h x fx. completed_at h root x fx ks \<Longrightarrow>
                   \<exists>h'. pull_loop moved h root = Some h' \<and>
                        pull_post h' root (then_trace ([], fx) (stack_trace ks))"
  shows "\<exists>h'. pull_loop moved (exec h p k) root = Some h' \<and>
              pull_post h' root (then_trace (rec_trace k) (stack_trace ks))"
proof -
  define h2 where "h2 = exec h p k"
  from exec_correct [OF p r rp lf ex, of k]
  have P: "exec_post h p root k h2" by (simp add: h2_def)
  from p rp have rl: "root < length h" by simp
  from P have len: "length h \<le> length h2"
    and un: "\<And>y. y < length h \<Longrightarrow> y \<noteq> p \<Longrightarrow> unchanged h h2 y"
    and sl: "\<And>y. y < length h \<Longrightarrow> y \<noteq> root \<Longrightarrow> same_link h h2 y"
    and rt: "m_root (promise (h2 ! p)) = root"
    by (simp_all add: exec_post_def)
  have u2: "up h2 root p root ks"
    by (rule up_preserved [OF u]) (use un sl p in auto)
  have rr2: "m_root (promise (h2 ! root)) = root"
    using rt un [OF rl] rr by (cases "root = p") (simp_all add: unchanged_def)
  show ?thesis
  proof (cases "fst (rec_trace k) = []")
    case True
    with P have "frame (h2 ! p) = at_final" "m_exception (promise (h2 ! p)) = snd (rec_trace k)"
      "m_parentOrLeaf (promise (h2 ! root)) = p"
      by (simp_all add: exec_post_def)
    with u2 rr2 rl p len have "completed_at h2 root p (snd (rec_trace k)) ks"
      by (simp add: completed_at_def)
    from ascend [OF this] True show ?thesis
      by (cases "rec_trace k") (simp add: h2_def)
  next
    case False
    with P obtain l ks' where
      sc: "suspended_chain h2 root l p ks'"
      and mv: "m_value (promise (h2 ! l)) = Some (hd (fst (rec_trace k)))"
      and lk: "m_parentOrLeaf (promise (h2 ! root)) = l"
      and st: "stack_trace ks' = (tl (fst (rec_trace k)), snd (rec_trace k))"
      by (auto simp: exec_post_def)
    from sc obtain k0 ks0 where ks': "ks' = k0 # ks0" by (cases ks') auto
    with sc have ll: "l < length h2" and fl: "frame (h2 ! l) = at_yield k0" by simp_all
    have stops: "pull_loop moved h2 root = Some h2"
      by (rule pull_loop_done [OF lk ll]) (simp add: fl)
    from suspended_chain_append [OF sc u2]
    have "at_value h2 root l (ks' @ ks) (hd (fst (rec_trace k)))"
      using rl len rr2 lk mv by (simp add: at_value_def)
    moreover have "stack_trace (ks' @ ks)
                     = (tl (fst (then_trace (rec_trace k) (stack_trace ks))),
                        snd (then_trace (rec_trace k) (stack_trace ks)))"
      and "hd (fst (then_trace (rec_trace k) (stack_trace ks))) = hd (fst (rec_trace k))"
      and "fst (then_trace (rec_trace k) (stack_trace ks)) \<noteq> []"
      using False st
      by (cases "rec_trace k"; cases "snd (rec_trace k)"; simp add: stack_trace_append)+
    ultimately have "pull_post h2 root (then_trace (rec_trace k) (stack_trace ks))"
      unfolding pull_post_def by (simp only: if_False simp_thms) blast
    with stops show ?thesis by (simp add: h2_def)
  qed
qed

lemma ascend:
  "completed_at h root x fx ks \<Longrightarrow>
   \<exists>h'. pull_loop moved h root = Some h' \<and> pull_post h' root (then_trace ([], fx) (stack_trace ks))"
proof (induction ks arbitrary: h x fx)
  case Nil
  then have "pull_loop moved h root = Some h"
    by (intro pull_loop_done) (auto simp: completed_at_def)
  with Nil show ?case
    by (auto simp: completed_at_def pull_post_def then_trace_def split: option.splits)
next
  case (Cons k ks)
  let ?p = "m_parentOrLeaf (promise (h ! x))"
  from Cons.prems have rl: "root < length h" and xl: "x < length h"
    and rr: "m_root (promise (h ! root)) = root" and fx: "frame (h ! x) = at_final"
    and ex: "m_exception (promise (h ! x)) = fx"
    and lf: "m_parentOrLeaf (promise (h ! root)) = x"
    and xr: "x \<noteq> root" and px: "?p < x" and rp: "root \<le> ?p"
    and fp: "frame (h ! ?p) = at_yield_nested x k" and mp: "m_root (promise (h ! ?p)) = root"
    and ep: "m_exception (promise (h ! ?p)) = None" and u: "up h root ?p root ks"
    by (simp_all add: completed_at_def)
  define h1 where "h1 = update_promise root (\<lambda>q. q\<lparr>m_parentOrLeaf := ?p\<rparr>) h"
  have l1: "length h1 = length h" by (simp add: h1_def)
  have un1: "\<And>y. unchanged h h1 y" and sl1: "\<And>y. y \<noteq> root \<Longrightarrow> same_link h h1 y"
    and lf1: "m_parentOrLeaf (promise (h1 ! root)) = ?p"
    using rl by (simp_all add: h1_def nth_update_promise unchanged_def same_link_def)
  have u1: "up h1 root ?p root ks"
    by (rule up_preserved [OF u]) (use un1 sl1 in auto)
  from px xl have pl: "?p < length h1" by (simp add: l1)
  have fp1: "frame (h1 ! ?p) = at_yield_nested x k" and mp1: "m_root (promise (h1 ! ?p)) = root"
    and ep1: "m_exception (promise (h1 ! ?p)) = None"
    and rr1: "m_root (promise (h1 ! root)) = root"
    using un1 [of ?p] un1 [of root] fp mp ep rr by (simp_all add: unchanged_def)
  have x1: "h1 ! x = h ! x" using xr by (simp add: h1_def nth_update_promise)
  have loop: "pull_loop moved h root =
                (case rec_resume moved h1 ?p of None \<Rightarrow> None | Some h2 \<Rightarrow> pull_loop moved h2 root)"
    unfolding h1_def by (rule pull_loop_ascend [OF lf xl xr fx])
  show ?case
  proof (cases fx)
    case None
    with ex x1 pl fp1 xl l1 have res: "rec_resume moved h1 ?p = Some (exec h1 ?p k)"
      by (simp add: rec_resume_def rethrow_if_exception_def)
    have "\<exists>h'. pull_loop moved (exec h1 ?p k) root = Some h' \<and>
               pull_post h' root (then_trace (rec_trace k) (stack_trace ks))"
      by (rule resume_then_loop [OF pl mp1 rp lf1 ep1 u1 rr1]) (rule Cons.IH)
    then show ?thesis using None by (simp add: loop res)
  next
    case (Some e)
    define h2 where "h2 = set_frame ?p at_final
                            (update_promise ?p (unhandled_exception e)
                              (update_promise x (\<lambda>_. (promise (h ! x))\<lparr>m_exception := moved (Some e)\<rparr>) h1))"
    from Some ex x1 pl fp1 xl l1 have res: "rec_resume moved h1 ?p = Some h2"
      by (simp add: rec_resume_def rethrow_if_exception_def h2_def)
    have l2: "length h2 = length h" by (simp add: h2_def l1)
    have xp: "x \<noteq> ?p" using px by simp
    have f2: "frame (h2 ! ?p) = at_final"
      and e2: "m_exception (promise (h2 ! ?p)) = Some e"
      and un2: "\<And>y. y \<noteq> ?p \<Longrightarrow> y \<noteq> x \<Longrightarrow> h2 ! y = h1 ! y"
      and sl2: "same_link h1 h2 ?p"
      and rt2: "m_root (promise (h2 ! ?p)) = m_root (promise (h1 ! ?p))"
      using pl xp xl l1
      by (simp_all add: h2_def nth_set_frame nth_update_promise unhandled_exception_def
            same_link_def)
    have u2: "up h2 root ?p root ks"
    proof (rule up_preserved [OF u1])
      show "\<forall>y. root \<le> y \<and> y < ?p \<longrightarrow> unchanged h1 h2 y"
        using un2 px by (auto simp: unchanged_def)
      show "\<forall>y. root < y \<and> y \<le> ?p \<longrightarrow> same_link h1 h2 y"
      proof (intro allI impI)
        fix y assume "root < y \<and> y \<le> ?p"
        then show "same_link h1 h2 y"
          using un2 [of y] sl2 px by (cases "y = ?p") (simp_all add: same_link_def)
      qed
    qed
    have lf2: "m_parentOrLeaf (promise (h2 ! root)) = ?p"
      using lf1 sl2 un2 [of root] xr by (cases "root = ?p") (simp_all add: same_link_def)
    have rr2: "m_root (promise (h2 ! root)) = root"
      using rr1 rt2 un2 [of root] xr by (cases "root = ?p") simp_all
    have "completed_at h2 root ?p (Some e) ks"
      using rl pl l1 l2 rr2 f2 e2 lf2 u2 by (simp add: completed_at_def)
    from Cons.IH [OF this] show ?thesis using Some by (simp add: loop res)
  qed
qed

lemma pull_at_value:
  assumes "at_value h root l ks v"
  shows "\<exists>h'. pull moved h root = Some h' \<and> pull_post h' root (stack_trace ks)"
proof -
  from assms have rl: "root < length h" and rr: "m_root (promise (h ! root)) = root"
    and lf: "m_parentOrLeaf (promise (h ! root)) = l"
    and sc: "suspended_chain h root l root ks"
    by (simp_all add: at_value_def)
  from sc obtain k0 ks0 where ks: "ks = k0 # ks0" by (cases ks) auto
  with sc have ll: "l < length h" and rle: "root \<le> l" and fl: "frame (h ! l) = at_yield k0"
    and ml: "m_root (promise (h ! l)) = root" and el: "m_exception (promise (h ! l)) = None"
    and u: "up h root l root ks0"
    by simp_all
  have "pull moved h root = pull_loop moved (exec h l k0) root"
    using rl rr lf ll fl by (simp add: pull_def is_complete_def rec_resume_def)
  moreover have "\<exists>h'. pull_loop moved (exec h l k0) root = Some h' \<and>
             pull_post h' root (then_trace (rec_trace k0) (stack_trace ks0))"
    by (rule resume_then_loop [OF ll ml rle lf el u rr]) (rule ascend)
  ultimately show ?thesis using ks
    by simp
qed

subsection \<open>The loop over a recursive generator\<close>

text \<open>
  The range-based for loop over a recursive generator is defined for every body and
  sees exactly the trace of the body: its values in order, nested ones in place, up
  to the first failure that is not lost.
\<close>

lemma recursive_loop_trace:
  "at_value h root l ks v \<Longrightarrow> stack_trace ks = (vs, f) \<Longrightarrow>
   range_loop (recursive_range moved) (h, Some root) = Some (v # vs, f)"
proof (induction vs arbitrary: h l ks v)
  case Nil
  from pull_at_value [OF Nil.prems(1), where moved = moved] Nil.prems(2) obtain h' where
    pl: "pull moved h root = Some h'" and fin: "frame (h' ! root) = at_final"
    and ex: "m_exception (promise (h' ! root)) = f"
    by (auto simp: pull_post_def)
  from Nil.prems(1) have rl: "root < length h" and rr: "m_root (promise (h ! root)) = root"
    and sc: "suspended_chain h root l root ks" and mv: "m_value (promise (h ! l)) = Some v"
    and lf: "m_parentOrLeaf (promise (h ! root)) = l"
    by (simp_all add: at_value_def)
  from suspended_chain_stop [OF sc] have nf: "frame (h ! root) \<noteq> at_final" and ll: "l < length h"
    by simp_all
  have d: "range_deref (recursive_range moved) (h, Some root) = Some v"
    using rl rr nf ll mv lf by (simp add: recursive_range_def recursive_deref_def rec_value_def
        is_complete_def)
  have i: "range_incr (recursive_range moved) (h, Some root) = Some (after_pull moved h' root)"
    using rl nf pl by (simp add: recursive_range_def recursive_incr_def is_complete_def)
  have e: "\<not> range_at_end (recursive_range moved) (h, Some root)"
    by (simp add: recursive_range_def recursive_at_end_def)
  show ?case
  proof (cases f)
    case None
    with fin ex have "after_pull moved h' root = (Normal (), update_promise root (\<lambda>_. promise (h' ! root)) h', None)"
      by (simp add: after_pull_def is_complete_def rethrow_if_exception_def)
    moreover have "range_loop (recursive_range moved)
                     (update_promise root (\<lambda>_. promise (h' ! root)) h', None) = Some ([], None)"
      by (rule range_loop_at_end) (simp add: recursive_range_def recursive_at_end_def)
    ultimately show ?thesis using None d i
      by (simp add: range_loop_step [OF e])
  next
    case (Some x)
    with fin ex have "fst (after_pull moved h' root) = Raised x"
      by (simp add: after_pull_def is_complete_def rethrow_if_exception_def)
    then show ?thesis using Some d i
      by (cases "after_pull moved h' root") (simp add: range_loop_step [OF e])
  qed
next
  case (Cons w vs)
  from pull_at_value [OF Cons.prems(1), where moved = moved] Cons.prems(2) obtain h' l' ks' where
    pl: "pull moved h root = Some h'" and av: "at_value h' root l' ks' w"
    and st: "stack_trace ks' = (vs, f)"
    by (auto simp: pull_post_def)
  from Cons.prems(1) have rl: "root < length h" and rr: "m_root (promise (h ! root)) = root"
    and sc: "suspended_chain h root l root ks" and mv: "m_value (promise (h ! l)) = Some v"
    and lf: "m_parentOrLeaf (promise (h ! root)) = l"
    by (simp_all add: at_value_def)
  from suspended_chain_stop [OF sc] have nf: "frame (h ! root) \<noteq> at_final" and ll: "l < length h"
    by simp_all
  from av have sc': "suspended_chain h' root l' root ks'" by (simp add: at_value_def)
  from suspended_chain_stop [OF sc'] have nf': "frame (h' ! root) \<noteq> at_final" by simp
  have d: "range_deref (recursive_range moved) (h, Some root) = Some v"
    using rl rr nf ll mv lf by (simp add: recursive_range_def recursive_deref_def rec_value_def
        is_complete_def)
  have i: "range_incr (recursive_range moved) (h, Some root) = Some (Normal (), h', Some root)"
    using rl nf pl nf'
    by (simp add: recursive_range_def recursive_incr_def is_complete_def after_pull_def)
  have e: "\<not> range_at_end (recursive_range moved) (h, Some root)"
    by (simp add: recursive_range_def recursive_at_end_def)
  from Cons.IH [OF av st] d i show ?case
    by (simp add: range_loop_step [OF e])
qed

lemma recursive_generator_trace:
  "range_for (recursive_range moved) (call_recursive_generator b h) = Some (rec_trace b)"
proof -
  define a where "a = length h"
  define h0 where "h0 = h @ [\<lparr>frame = at_initial b, promise = new_promise a\<rparr>]"
  have c: "call_recursive_generator b h = (h0, Some a)"
    by (simp add: call_recursive_generator_eq h0_def a_def)
  have al: "a < length h0" and fa: "frame (h0 ! a) = at_initial b"
    and pa: "promise (h0 ! a) = new_promise a"
    by (simp_all add: h0_def a_def)
  have ra: "m_root (promise (h0 ! a)) = a" and la: "m_parentOrLeaf (promise (h0 ! a)) = a"
    and ea: "m_exception (promise (h0 ! a)) = None"
    by (simp_all add: pa new_promise_def)
  have "pull moved h0 a = pull_loop moved (exec h0 a b) a"
    using al fa ra la by (simp add: pull_def is_complete_def rec_resume_def)
  moreover have u: "up h0 a a a []" by simp
  have "\<exists>h'. pull_loop moved (exec h0 a b) a = Some h' \<and>
             pull_post h' a (then_trace (rec_trace b) (stack_trace []))"
    by (rule resume_then_loop [OF al ra le_refl la ea u ra]) (rule ascend)
  then obtain h' where "pull_loop moved (exec h0 a b) a = Some h'" and pp: "pull_post h' a (rec_trace b)"
    by auto
  ultimately have pl: "pull moved h0 a = Some h'" by simp
  have b: "range_begin (recursive_range moved) (h0, Some a) = Some (after_pull moved h' a)"
    using pl by (simp add: recursive_range_def recursive_begin_def)
  show ?thesis
  proof (cases "fst (rec_trace b)")
    case Nil
    with pp have fin: "frame (h' ! a) = at_final"
      and ex: "m_exception (promise (h' ! a)) = snd (rec_trace b)"
      by (simp_all add: pull_post_def)
    show ?thesis
    proof (cases "snd (rec_trace b)")
      case None
      with fin ex have "after_pull moved h' a = (Normal (), update_promise a (\<lambda>_. promise (h' ! a)) h', None)"
        by (simp add: after_pull_def is_complete_def rethrow_if_exception_def)
      moreover have "range_loop (recursive_range moved)
                     (update_promise a (\<lambda>_. promise (h' ! a)) h', None) = Some ([], None)"
        by (rule range_loop_at_end) (simp add: recursive_range_def recursive_at_end_def)
      ultimately show ?thesis using Nil None b
        by (cases "rec_trace b") (simp add: range_for_def c)
    next
      case (Some x)
      with fin ex have "fst (after_pull moved h' a) = Raised x"
        by (simp add: after_pull_def is_complete_def rethrow_if_exception_def)
      then show ?thesis using Nil Some b
        by (cases "after_pull moved h' a"; cases "rec_trace b") (simp add: range_for_def c)
    qed
  next
    case (Cons v vs)
    with pp obtain l ks where av: "at_value h' a l ks v"
      and st: "stack_trace ks = (vs, snd (rec_trace b))"
      by (auto simp: pull_post_def)
    from av have sc: "suspended_chain h' a l a ks" by (simp add: at_value_def)
    from suspended_chain_stop [OF sc] have nf: "frame (h' ! a) \<noteq> at_final" by simp
    then have "after_pull moved h' a = (Normal (), h', Some a)"
      by (simp add: after_pull_def is_complete_def)
    with recursive_loop_trace [OF av st] b Cons show ?thesis
      by (cases "rec_trace b") (simp add: range_for_def c)
  qed
qed

subsection \<open>Flattening\<close>

lemma no_throw_trace: "no_throw b \<Longrightarrow> rec_trace b = (flatten b, None)"
  by (induction b) (auto simp: then_trace_def)

text \<open>
  Claim C2. When a node \<open>a\<close> of a chain with root \<open>root\<close> yields a fresh nested
  generator, \<open>yield_value\<close> makes the child the leaf of the root and gives it the
  root and \<open>a\<close> as parent before it resumes it. With \<open>pull()\<close> as the code has
  it, the loop over a recursive generator whose body fails nowhere, nested to any
  depth, sees exactly the flattened sequence of the body and ends normally.
\<close>

theorem recursive_generator_flattens:
  "(a < length h \<and> m_root (promise (h ! a)) = root \<and> root \<le> a \<longrightarrow>
      m_parentOrLeaf (promise
        (link_child a (length h)
           (h @ [\<lparr>frame = at_initial c, promise = new_promise (length h)\<rparr>]) ! root)) = length h \<and>
      promise
        (link_child a (length h)
           (h @ [\<lparr>frame = at_initial c, promise = new_promise (length h)\<rparr>]) ! length h)
        = \<lparr>m_exception = None, m_value = None, m_root = root, m_parentOrLeaf = a\<rparr>) \<and>
   (no_throw b \<longrightarrow>
      range_for (recursive_range moved) (call_recursive_generator b h) = Some (flatten b, None))"
proof (intro conjI impI)
  assume "a < length h \<and> m_root (promise (h ! a)) = root \<and> root \<le> a"
  then have a: "a < length h" and r: "m_root (promise (h ! a)) = root" and ra: "root \<le> a"
    by simp_all
  from link_child_fresh [OF a r ra refl, where c = c]
  show "m_parentOrLeaf (promise
        (link_child a (length h)
           (h @ [\<lparr>frame = at_initial c, promise = new_promise (length h)\<rparr>]) ! root)) = length h"
    and "promise
        (link_child a (length h)
           (h @ [\<lparr>frame = at_initial c, promise = new_promise (length h)\<rparr>]) ! length h)
        = \<lparr>m_exception = None, m_value = None, m_root = root, m_parentOrLeaf = a\<rparr>"
    by simp_all
next
  assume "no_throw b"
  then show "range_for (recursive_range moved) (call_recursive_generator b h) = Some (flatten b, None)"
    by (simp add: recursive_generator_trace no_throw_trace)
qed

theorem recursive_generator_flattens_witness:
  "range_for (recursive_range move_copies)
     (call_recursive_generator
        (RYield 1 (RYieldNested (RYield 2 (RYield 3 RReturn)) (RYield (4::nat) RReturn))) [])
   = Some ([1, 2, 3, 4], None) \<and>
   m_parentOrLeaf (promise
     (link_child 0 1
        ([\<lparr>frame = at_yield (RYieldNested (RYield 2 (RYield 3 RReturn)) (RYield (4::nat) RReturn)),
           promise = \<lparr>m_exception = None, m_value = Some 1, m_root = 0, m_parentOrLeaf = 0\<rparr>\<rparr>]
         @ [\<lparr>frame = at_initial (RYield 2 (RYield 3 RReturn)), promise = new_promise 1\<rparr>]) ! 0)) = 1"
proof -
  note t = recursive_generator_flattens
      [where moved = move_copies
         and b = "RYield 1 (RYieldNested (RYield 2 (RYield 3 RReturn)) (RYield (4::nat) RReturn))"
         and h = "[]", THEN conjunct2]
  note u = recursive_generator_flattens
      [where a = 0 and root = 0 and c = "RYield 2 (RYield 3 RReturn)"
         and h = "[\<lparr>frame = at_yield (RYieldNested (RYield 2 (RYield 3 RReturn)) (RYield (4::nat) RReturn)),
                    promise = \<lparr>m_exception = None, m_value = Some 1, m_root = 0, m_parentOrLeaf = 0\<rparr>\<rparr>]",
         THEN conjunct1]
  from t have 1: "range_for (recursive_range move_copies)
     (call_recursive_generator
        (RYield 1 (RYieldNested (RYield 2 (RYield 3 RReturn)) (RYield (4::nat) RReturn))) [])
   = Some ([1, 2, 3, 4], None)"
    by simp
  from u have 2: "m_parentOrLeaf (promise
     (link_child 0 1
        ([\<lparr>frame = at_yield (RYieldNested (RYield 2 (RYield 3 RReturn)) (RYield (4::nat) RReturn)),
           promise = \<lparr>m_exception = None, m_value = Some 1, m_root = 0, m_parentOrLeaf = 0\<rparr>\<rparr>]
         @ [\<lparr>frame = at_initial (RYield 2 (RYield 3 RReturn)), promise = new_promise 1\<rparr>]) ! 0)) = 1"
    by simp
  from 1 2 show ?thesis by simp
qed

subsection \<open>A failure before the first element of a nested generator\<close>

text \<open>
  Claim C7 says that a failure anywhere in the chain reaches the consumer and that
  no element follows it. The root below yields a nested generator whose body fails
  before its first \<open>co_yield\<close>, then yields 4. The nested coroutine is complete when
  \<open>yield_value\<close> has resumed it, so \<open>yield_value\<close> returns \<open>awaitable{nullptr}\<close>,
  whose \<open>await_resume()\<close> does not look at the child: the failure is dropped, the
  consumer sees 4 and a normal end.
\<close>

theorem nested_failure_before_first_element_is_lost:
  "range_for (recursive_range moved)
     (call_recursive_generator
        (RYieldNested (RThrow (user_failure 1)) (RYield (4::nat) RReturn)) [])
   = Some ([4], None)"
  by code_simp

text \<open>
  A failure after the first element of a nested generator does arrive: here it is
  raised at depth 3, after the elements 0, 3 and 5, and ends the loop.
\<close>

lemma nested_failure_after_elements_arrives:
  "range_for (recursive_range moved)
     (call_recursive_generator
        (RYield 0
          (RYieldNested
            (RYieldNested
              (RYield 3 (RYieldNested (RYield 5 (RThrow (user_failure 1))) (RYield 6 RReturn)))
              (RYield 7 RReturn))
            (RYield (4::nat) RReturn))) [])
   = Some ([0, 3, 5], Some (user_failure 1))"
  by code_simp

end
